theory Spec2Isabelle
  imports Complex_Main
begin

section \<open>Data model of backend/server.py\<close>

text \<open>
  A Python \<open>str\<close> is a sequence of Unicode code points, so it is modelled as a list of
  natural numbers; \<open>lit\<close> turns an ASCII literal into such a list. A \<open>date\<close> is its
  proleptic Gregorian ordinal (\<open>date.toordinal()\<close>), so that \<open>d - timedelta(days=1)\<close>
  is \<open>d - 1\<close>. An aware \<open>datetime\<close> is the number of microseconds since the epoch.
\<close>

type_synonym str = "nat list"
type_synonym date = int
type_synonym datetime = int

definition lit :: "string \<Rightarrow> str" where
  "lit s = map of_char s"

text \<open>The table \<open>daily_actions\<close> (class \<open>DailyAction\<close>).\<close>

record DailyAction =
  da_id :: str
  da_user_id :: str
  da_plan_id :: str
  da_focus_area :: str
  da_action :: str
  da_day :: date
  da_completed :: bool
  da_completed_at :: "datetime option"
  da_rescheduled_from :: "date option"

text \<open>
  A focus area is a JSON object stored inside the plan. Its values are strings here; a
  field is \<open>None\<close> when the key is absent. The keys \<open>description\<close>,
  \<open>success_looks_like\<close>, \<open>outcomes\<close> and \<open>daily_action\<close> only feed the prompt and the
  first day's rows. Focus areas with values of any JSON type have a section of their own
  below.
\<close>

record focus_area =
  fa_name :: "str option"
  fa_weekly_focus :: "str option"
  fa_monthly_direction :: "str option"

text \<open>The table \<open>plans\<close> (class \<open>Plan\<close>).\<close>

record Plan =
  p_id :: str
  p_user_id :: str
  p_goal_id :: str
  p_focus_areas :: "focus_area list"
  p_timeline :: str
  p_status :: str

text \<open>
  The record store as the engines see it: the rows of \<open>daily_actions\<close> and \<open>plans\<close> in
  storage order (a query without \<open>ORDER BY\<close> returns its rows in that order, \<open>add_all\<close>
  followed by \<open>commit\<close> appends), and the number of \<open>uuid.uuid4()\<close> calls made so far;
  the \<open>n\<close>-th call returns \<open>uuid4 n\<close> for a supply \<open>uuid4\<close> handed to each engine.
\<close>

record store =
  daily_actions :: "DailyAction list"
  plans :: "Plan list"
  uuid_calls :: nat

section \<open>Day resolver\<close>

text \<open>
  \<open>LOCAL_TZ\<close> is the zone's UTC offset in microseconds at a given instant, and
  \<open>astimezone\<close> yields the local wall clock, again in microseconds, counted from
  1970-01-01T00:00 local; the ordinal of 1970-01-01 is 719163. \<open>clock\<close> is what
  \<open>datetime.now(timezone.utc)\<close> returns.
\<close>

definition astimezone :: "(datetime \<Rightarrow> int) \<Rightarrow> datetime \<Rightarrow> int" where
  "astimezone tz t = t + tz t"

definition local_date :: "int \<Rightarrow> date" where
  "local_date l = 719163 + l div 86400000000"

definition local_hour :: "int \<Rightarrow> int" where
  "local_hour l = (l mod 86400000000) div 3600000000"

definition local_minute :: "int \<Rightarrow> int" where
  "local_minute l = (l mod 3600000000) div 60000000"

definition effective_day :: "(datetime \<Rightarrow> int) \<Rightarrow> int \<Rightarrow> datetime \<Rightarrow> datetime option \<Rightarrow> date" where
  "effective_day LOCAL_TZ DAY_ROLLOVER_HOUR clock now_utc =
     (let now = (case now_utc of None \<Rightarrow> clock | Some t \<Rightarrow> t);
          local = astimezone LOCAL_TZ now;
          d = local_date local
      in if local_hour local < DAY_ROLLOVER_HOUR then d - 1 else d)"

section \<open>String helpers\<close>

text \<open>
  The code points for which \<open>str.isspace\<close> holds (the set \<open>str.strip()\<close> removes) and
  the line boundaries of \<open>str.splitlines\<close>.
\<close>

definition isspace :: "nat \<Rightarrow> bool" where
  "isspace c = (c \<in> {9, 10, 11, 12, 13, 28, 29, 30, 31, 32, 133, 160, 5760}
                  \<or> (8192 \<le> c \<and> c \<le> 8202)
                  \<or> c \<in> {8232, 8233, 8239, 8287, 12288})"

definition islinebreak :: "nat \<Rightarrow> bool" where
  "islinebreak c = (c \<in> {10, 11, 12, 13, 28, 29, 30, 133, 8232, 8233})"

definition strip :: "str \<Rightarrow> str" where
  "strip s = rev (dropWhile isspace (rev (dropWhile isspace s)))"

text \<open>\<open>s.splitlines()[0]\<close>: an \<open>IndexError\<close> (here \<open>None\<close>) on the empty string.\<close>

definition splitlines_first :: "str \<Rightarrow> str option" where
  "splitlines_first s = (if s = [] then None else Some (takeWhile (\<lambda>c. \<not> islinebreak c) s))"

text \<open>\<open>x or d\<close> for \<open>x\<close> a string or \<open>None\<close>.\<close>

definition or_str :: "str option \<Rightarrow> str \<Rightarrow> str" where
  "or_str x d = (case x of None \<Rightarrow> d | Some s \<Rightarrow> if s = [] then d else s)"

text \<open>\<open>str(n)\<close> for a non-negative integer, as an f-string renders it.\<close>

fun str_of_nat :: "nat \<Rightarrow> str" where
  "str_of_nat n = (if n < 10 then [48 + n] else str_of_nat (n div 10) @ [48 + n mod 10])"

declare str_of_nat.simps [simp del]

section \<open>Action generator\<close>

definition fallback_next_action :: "focus_area \<Rightarrow> int \<Rightarrow> str" where
  "fallback_next_action focus_area day_index =
     (let name = strip (or_str (fa_name focus_area) (lit ''Focus''));
          weekly = strip (or_str (fa_weekly_focus focus_area) []);
          monthly = strip (or_str (fa_monthly_direction focus_area) []);
          base = (if weekly \<noteq> [] then weekly
                  else if monthly \<noteq> [] then monthly
                  else lit ''Move this forward with a small concrete step.'');
          variants =
            [lit ''Do a 15'' @ [8211] @ lit ''30 min micro-step toward: '' @ base,
             lit ''Make it real: produce a tiny deliverable toward: '' @ base,
             lit ''Remove one blocker for: '' @ base
               @ lit '' (list 3 sub-steps, then do the first)'',
             lit ''Ship something small today for: '' @ base,
             lit ''Review + adjust: what did you learn about '' @ name
               @ lit ''? Then choose the next tiny step.'']
      in variants ! nat (day_index mod int (length variants)))"

text \<open>
  The external text generator. A call either raises or returns a response whose
  \<open>choices[0].message.content\<close> is a string or \<open>None\<close>. The client is a function of the
  number of the call within the batch and of the values the prompt is built from (the
  plan, the focus area, yesterday's items for that focus area and the day index);
  \<open>openai_client\<close> is \<open>None\<close> when no API key is configured.
\<close>

datatype ai_response = Raises | Content "str option"

type_synonym client = "nat \<Rightarrow> Plan \<Rightarrow> focus_area \<Rightarrow> (str \<times> bool) list \<Rightarrow> int \<Rightarrow> ai_response"

definition focus_name :: "focus_area \<Rightarrow> str" where
  "focus_name area = (case fa_name area of None \<Rightarrow> lit ''Focus'' | Some n \<Rightarrow> n)"

text \<open>\<open>y_items\<close>: yesterday's items of the focus area, completed or not.\<close>

definition y_items_of :: "focus_area \<Rightarrow> DailyAction list \<Rightarrow> (str \<times> bool) list" where
  "y_items_of focus_area yesterday_actions =
     map (\<lambda>a. (da_action a, da_completed a))
       (filter (\<lambda>a. da_focus_area a = focus_name focus_area) yesterday_actions)"

definition generate_next_action_with_ai ::
  "client option \<Rightarrow> nat \<Rightarrow> Plan \<Rightarrow> focus_area \<Rightarrow> DailyAction list \<Rightarrow> int \<Rightarrow> str"
where
  "generate_next_action_with_ai openai_client call_no plan focus_area yesterday_actions day_index =
     (case openai_client of
        None \<Rightarrow> fallback_next_action focus_area day_index
      | Some create \<Rightarrow>
          let y_items = y_items_of focus_area yesterday_actions
          in case create call_no plan focus_area y_items day_index of
               Raises \<Rightarrow> fallback_next_action focus_area day_index
             | Content c \<Rightarrow>
                 let out = strip (or_str c []) in
                 if out = [] then fallback_next_action focus_area day_index
                 else (case splitlines_first out of
                         None \<Rightarrow> fallback_next_action focus_area day_index
                       | Some l \<Rightarrow> strip l))"

section \<open>Fresh-action engine\<close>

text \<open>An entry of \<open>results\<close>: \<open>gather(..., return_exceptions=True)\<close> returns a raised
  exception as a value.\<close>

datatype task_result = Exc | Result str

definition gen_one ::
  "client option \<Rightarrow> nat \<Rightarrow> Plan \<Rightarrow> focus_area \<Rightarrow> int \<Rightarrow> DailyAction list \<Rightarrow> str"
where
  "gen_one openai_client call_no plan area day_index y_list =
     (case openai_client of
        None \<Rightarrow> fallback_next_action area day_index
      | Some _ \<Rightarrow> generate_next_action_with_ai openai_client call_no plan area y_list day_index)"

text \<open>
  The task created for one (plan, focus area) pair. \<open>generate_next_action_with_ai\<close>
  catches every exception of the external call, so the task returns normally.
\<close>

definition run_task ::
  "client option \<Rightarrow> nat \<Rightarrow> Plan \<Rightarrow> focus_area \<Rightarrow> int \<Rightarrow> DailyAction list \<Rightarrow> task_result"
where
  "run_task openai_client call_no plan area day_index y_list =
     (case openai_client of
        Some _ \<Rightarrow> Result (gen_one openai_client call_no plan area day_index y_list)
      | None \<Rightarrow> Result (fallback_next_action area day_index))"

text \<open>The action text chosen for one entry of \<open>results\<close> (lines 575 to 579).\<close>

definition action_text_of :: "task_result \<Rightarrow> str" where
  "action_text_of result =
     (case result of
        Exc \<Rightarrow> lit ''Take one small step today.''
      | Result r \<Rightarrow> strip (if r = [] then lit ''Take one small step today.'' else r))"

definition active_plans :: "str \<Rightarrow> store \<Rightarrow> Plan list" where
  "active_plans user_id db =
     filter (\<lambda>p. p_user_id p = user_id \<and> p_status p = lit ''active'') (plans db)"

definition existing_fresh_plan_ids :: "date \<Rightarrow> str \<Rightarrow> store \<Rightarrow> str set" where
  "existing_fresh_plan_ids today user_id db =
     set (map da_plan_id
       (filter (\<lambda>a. da_user_id a = user_id \<and> da_day a = today \<and> da_rescheduled_from a = None
                    \<and> da_plan_id a \<in> set (map p_id (active_plans user_id db)))
          (daily_actions db)))"

definition plans_to_generate :: "date \<Rightarrow> str \<Rightarrow> store \<Rightarrow> Plan list" where
  "plans_to_generate today user_id db =
     filter (\<lambda>p. p_id p \<notin> existing_fresh_plan_ids today user_id db) (active_plans user_id db)"

text \<open>\<open>y_by_plan.get(plan.id, [])\<close>.\<close>

definition y_by_plan :: "date \<Rightarrow> str \<Rightarrow> store \<Rightarrow> str \<Rightarrow> DailyAction list" where
  "y_by_plan today user_id db pid =
     filter (\<lambda>a. da_plan_id a = pid)
       (filter (\<lambda>a. da_user_id a = user_id
                    \<and> da_plan_id a \<in> set (map p_id (plans_to_generate today user_id db))
                    \<and> da_day a = today - 1) (daily_actions db))"

text \<open>\<open>first_day_by_plan.get(plan.id)\<close>: the minimum day of the plan's rows.\<close>

definition first_day_by_plan :: "date \<Rightarrow> str \<Rightarrow> store \<Rightarrow> str \<Rightarrow> date option" where
  "first_day_by_plan today user_id db pid =
     (if pid \<in> set (map p_id (plans_to_generate today user_id db))
      then (case map da_day (filter (\<lambda>a. da_user_id a = user_id \<and> da_plan_id a = pid)
                               (daily_actions db)) of
              [] \<Rightarrow> None
            | d # ds \<Rightarrow> Some (fold min ds d))
      else None)"

text \<open>
  The nested loop at lines 556 to 570: one job (plan, area, day_index, y_list) for every
  focus area of every plan of \<open>plans_to_generate\<close>, in order.
\<close>

definition jobs_of_plan ::
  "date \<Rightarrow> str \<Rightarrow> store \<Rightarrow> Plan \<Rightarrow> (Plan \<times> focus_area \<times> int \<times> DailyAction list) list"
where
  "jobs_of_plan today user_id db plan =
     (let first_day = first_day_by_plan today user_id db (p_id plan);
          day_index = (case first_day of None \<Rightarrow> 0 | Some f \<Rightarrow> today - f);
          y_list = y_by_plan today user_id db (p_id plan)
      in map (\<lambda>area. (plan, area, day_index, y_list)) (p_focus_areas plan))"

definition jobs :: "date \<Rightarrow> str \<Rightarrow> store \<Rightarrow> (Plan \<times> focus_area \<times> int \<times> DailyAction list) list" where
  "jobs today user_id db = concat (map (jobs_of_plan today user_id db) (plans_to_generate today user_id db))"

text \<open>The row built from the \<open>i\<close>-th entry of \<open>task_meta\<close> and of \<open>results\<close>.\<close>

definition new_row ::
  "client option \<Rightarrow> (nat \<Rightarrow> str) \<Rightarrow> date \<Rightarrow> str \<Rightarrow> nat \<Rightarrow> nat
     \<Rightarrow> (Plan \<times> focus_area \<times> int \<times> DailyAction list) \<Rightarrow> DailyAction"
where
  "new_row openai_client uuid4 today user_id n0 i job =
     (case job of (plan, area, day_index, y_list) \<Rightarrow>
        \<lparr>da_id = uuid4 (n0 + i), da_user_id = user_id, da_plan_id = p_id plan,
         da_focus_area = focus_name area,
         da_action = action_text_of (run_task openai_client i plan area day_index y_list),
         da_day = today, da_completed = False, da_completed_at = None,
         da_rescheduled_from = None\<rparr>)"

definition new_rows :: "client option \<Rightarrow> (nat \<Rightarrow> str) \<Rightarrow> date \<Rightarrow> str \<Rightarrow> store \<Rightarrow> DailyAction list" where
  "new_rows openai_client uuid4 today user_id db =
     map (\<lambda>(i, job). new_row openai_client uuid4 today user_id (uuid_calls db) i job)
       (zip [0 ..< length (jobs today user_id db)] (jobs today user_id db))"

text \<open>
  \<open>ensure_fresh_actions_for_today\<close>, with \<open>today\<close> the value of \<open>effective_day()\<close>:
  the two early returns, then \<open>add_all(new_rows)\<close> and the commit.
\<close>

definition ensure_fresh_actions_for_today ::
  "client option \<Rightarrow> (nat \<Rightarrow> str) \<Rightarrow> date \<Rightarrow> str \<Rightarrow> store \<Rightarrow> store"
where
  "ensure_fresh_actions_for_today openai_client uuid4 today user_id db =
     (if active_plans user_id db = [] then db
      else if plans_to_generate today user_id db = [] then db
      else db\<lparr>daily_actions := daily_actions db @ new_rows openai_client uuid4 today user_id db,
              uuid_calls := uuid_calls db + length (jobs today user_id db)\<rparr>)"

section \<open>Rollover engine\<close>

text \<open>\<open>scalar_one_or_none\<close> on a result of at most one row.\<close>

definition scalar_one_or_none :: "'a list \<Rightarrow> 'a option" where
  "scalar_one_or_none xs = (case xs of [] \<Rightarrow> None | x # _ \<Rightarrow> Some x)"

text \<open>The rows of today that were carried over from yesterday (the two queries at lines 614 and 637).\<close>

definition carried_today :: "date \<Rightarrow> str \<Rightarrow> store \<Rightarrow> DailyAction list" where
  "carried_today today user_id db =
     filter (\<lambda>a. da_user_id a = user_id \<and> da_day a = today
                 \<and> da_rescheduled_from a = Some (today - 1)) (daily_actions db)"

text \<open>Yesterday's incomplete rows (the query at line 625).\<close>

definition yesterday_incomplete :: "date \<Rightarrow> str \<Rightarrow> store \<Rightarrow> DailyAction list" where
  "yesterday_incomplete today user_id db =
     filter (\<lambda>a. da_user_id a = user_id \<and> da_day a = today - 1 \<and> da_completed a = False)
       (daily_actions db)"

definition key_of :: "DailyAction \<Rightarrow> str \<times> str \<times> str" where
  "key_of a = (da_plan_id a, da_focus_area a, da_action a)"

text \<open>
  The loop \<open>for a in rows\<close> building \<open>to_add\<close>; \<open>n\<close> counts the \<open>uuid4\<close> calls.
  \<open>existing_keys\<close> is not updated inside the loop.
\<close>

fun to_add_loop ::
  "(nat \<Rightarrow> str) \<Rightarrow> nat \<Rightarrow> date \<Rightarrow> (str \<times> str \<times> str) set \<Rightarrow> DailyAction list \<Rightarrow> DailyAction list"
where
  "to_add_loop uuid4 n today existing_keys [] = []"
| "to_add_loop uuid4 n today existing_keys (a # rows) =
     (if key_of a \<in> existing_keys
      then to_add_loop uuid4 n today existing_keys rows
      else \<lparr>da_id = uuid4 n, da_user_id = da_user_id a, da_plan_id = da_plan_id a,
            da_focus_area = da_focus_area a, da_action = da_action a, da_day = today,
            da_completed = False, da_completed_at = None,
            da_rescheduled_from = Some (today - 1)\<rparr>
           # to_add_loop uuid4 (Suc n) today existing_keys rows)"

text \<open>
  \<open>reschedule_incomplete_actions\<close>, with \<open>today\<close> the value of \<open>effective_day()\<close>.
  The guard \<open>if already_carried_q.scalar_one_or_none()\<close> tests the truth value of the
  selected id: it holds when a row was found and its id is not the empty string.
\<close>

definition reschedule_incomplete_actions ::
  "(nat \<Rightarrow> str) \<Rightarrow> date \<Rightarrow> str \<Rightarrow> store \<Rightarrow> store"
where
  "reschedule_incomplete_actions uuid4 today user_id db =
     (let already_carried_q = take 1 (map da_id (carried_today today user_id db)) in
      if (case scalar_one_or_none already_carried_q of None \<Rightarrow> False | Some i \<Rightarrow> i \<noteq> [])
      then db
      else
        let rows = yesterday_incomplete today user_id db in
        if rows = [] then db
        else
          let existing_keys = set (map key_of (carried_today today user_id db));
              to_add = to_add_loop uuid4 (uuid_calls db) today existing_keys rows
          in if to_add = [] then db
             else db\<lparr>daily_actions := daily_actions db @ to_add,
                     uuid_calls := uuid_calls db + length to_add\<rparr>)"

section \<open>Progress aggregator\<close>

record streak =
  s_current_streak :: nat
  s_longest_streak :: nat
  s_total_completed :: nat
  s_message :: str

text \<open>The days of the user's completed rows, latest first, at most 2000 (line 673).\<close>

definition completed_days :: "str \<Rightarrow> store \<Rightarrow> date list" where
  "completed_days user_id db =
     take 2000 (rev (sort (map da_day
       (filter (\<lambda>a. da_user_id a = user_id \<and> da_completed a = True) (daily_actions db)))))"

text \<open>The loop at lines 694 to 698: \<open>i\<close> is the index, \<open>acc\<close> the streak so far.\<close>

fun current_loop :: "date \<Rightarrow> nat \<Rightarrow> nat \<Rightarrow> date list \<Rightarrow> nat" where
  "current_loop today i acc [] = acc"
| "current_loop today i acc (d # ds) =
     (if d = today - int i then current_loop today (Suc i) (acc + 1) ds else acc)"

text \<open>The loop at lines 702 to 707 over adjacent entries of \<open>unique_days\<close>.\<close>

fun longest_loop :: "nat \<Rightarrow> nat \<Rightarrow> date list \<Rightarrow> nat" where
  "longest_loop longest run (a # b # ds) =
     (if a - b = 1
      then longest_loop (max longest (run + 1)) (run + 1) (b # ds)
      else longest_loop longest 1 (b # ds))"
| "longest_loop longest run ds = longest"

definition streak_message :: "nat \<Rightarrow> str" where
  "streak_message current_streak =
     (if current_streak = 0 then lit ''Tomorrow is a fresh start! '' @ [127793]
      else if current_streak = 1 then lit ''One day at a time! Keep going '' @ [127775]
      else if current_streak < 7 then
        str_of_nat current_streak
          @ lit '' days of small steps! You're building something beautiful '' @ [127800]
      else if current_streak < 30 then
        str_of_nat current_streak
          @ lit '' days of showing up! This is becoming who you are '' @ [128171]
      else str_of_nat current_streak @ lit '' days of gentle progress! You're amazing '' @ [127752])"

definition calculate_streak :: "date \<Rightarrow> str \<Rightarrow> store \<Rightarrow> streak" where
  "calculate_streak today user_id db =
     (let days = completed_days user_id db in
      if days = [] then
        \<lparr>s_current_streak = 0, s_longest_streak = 0, s_total_completed = 0,
         s_message = lit ''Start your first action to begin your journey!''\<rparr>
      else
        let unique_days = rev (sort (remdups days));
            total_completed = length days;
            current_streak = current_loop today 0 0 unique_days;
            longest = max (longest_loop 1 1 unique_days) current_streak
        in \<lparr>s_current_streak = current_streak, s_longest_streak = longest,
            s_total_completed = total_completed, s_message = streak_message current_streak\<rparr>)"

subsection \<open>Floats\<close>

text \<open>
  A Python float is an IEEE 754 double; the finite doubles are rationals, and every
  operation returns the exact result rounded to 53 significant bits, ties to even.
  The exponent range is not modelled: the floats of the weekly summary are quotients of
  row counts, multiplied by 100.
\<close>

fun bit_length :: "nat \<Rightarrow> nat" where
  "bit_length n = (if n = 0 then 0 else Suc (bit_length (n div 2)))"

declare bit_length.simps [simp del]

definition pow2 :: "int \<Rightarrow> rat" where
  "pow2 k = (if 0 \<le> k then 2 ^ nat k else 1 / 2 ^ nat (- k))"

definition round_half_even :: "rat \<Rightarrow> int" where
  "round_half_even x =
     (let f = \<lfloor>x\<rfloor>; r = x - of_int f
      in if r < 1 / 2 then f else if 1 / 2 < r then f + 1 else if even f then f else f + 1)"

text \<open>For \<open>0 < x\<close>, the exponent \<open>e\<close> with \<open>2 ^ e \<le> x < 2 ^ (e + 1)\<close>.\<close>

definition ilog2 :: "rat \<Rightarrow> int" where
  "ilog2 x =
     (case quotient_of x of (p, q) \<Rightarrow>
        let k = int (bit_length (nat p)) - int (bit_length (nat q))
        in if pow2 k \<le> x then k else k - 1)"

definition to_double :: "rat \<Rightarrow> rat" where
  "to_double x =
     (if x = 0 then 0
      else let a = \<bar>x\<bar>; e = ilog2 a; m = round_half_even (a / pow2 (e - 52))
           in sgn x * of_int m * pow2 (e - 52))"

text \<open>\<open>completed / total * 100\<close> on two counts: true division, then a float product.\<close>

definition percent :: "nat \<Rightarrow> nat \<Rightarrow> rat" where
  "percent completed total' = to_double (to_double (of_nat completed / of_nat total') * 100)"

text \<open>
  \<open>round(x, 1)\<close> on a float: the decimal with one fractional digit nearest to the exact
  value of \<open>x\<close> (ties to even), read back as a double.
\<close>

definition round1 :: "rat \<Rightarrow> rat" where
  "round1 x = to_double (of_int (round_half_even (x * 10)) / 10)"

subsection \<open>Weekly summary\<close>

text \<open>\<open>date.weekday()\<close>: Monday is 0; ordinal 1 is a Monday.\<close>

definition weekday :: "date \<Rightarrow> int" where
  "weekday d = (d + 6) mod 7"

text \<open>The dict \<open>progress\<close>, in insertion order: focus area, total, completed.\<close>

fun progress_add :: "str \<Rightarrow> bool \<Rightarrow> (str \<times> nat \<times> nat) list \<Rightarrow> (str \<times> nat \<times> nat) list" where
  "progress_add area done [] = [(area, 1, if done then 1 else 0)]"
| "progress_add area done ((k, t, c) # ps) =
     (if k = area then (k, t + 1, if done then c + 1 else c) # ps
      else (k, t, c) # progress_add area done ps)"

definition momentum_message_of :: "rat \<Rightarrow> nat \<Rightarrow> str" where
  "momentum_message_of completion_rate completed =
     (if 80 \<le> completion_rate then
        lit ''Incredible momentum this week! '' @ str_of_nat completed
          @ lit '' actions completed '' @ [8212] @ lit '' you're moving '' @ [128640]
      else if 60 \<le> completion_rate then
        lit ''Solid week! '' @ str_of_nat completed
          @ lit '' actions done. Keep stacking wins '' @ [127775]
      else if 40 \<le> completion_rate then
        lit ''You showed up '' @ str_of_nat completed
          @ lit '' times this week. That counts '' @ [127793]
      else if 0 < completion_rate then
        str_of_nat completed @ lit '' small steps this week. Progress > perfection '' @ [128154]
      else lit ''New week, fresh start! Your goals are waiting '' @ [127749])"

text \<open>The returned dict; \<open>week_start\<close> and \<open>week_end\<close> are kept as dates, not as ISO strings.\<close>

record weekly_summary =
  w_week_start :: date
  w_week_end :: date
  w_total_actions :: nat
  w_completed_actions :: nat
  w_completion_rate :: rat
  w_focus_areas_progress :: "(str \<times> nat \<times> nat \<times> rat) list"
  w_wins :: "str list"
  w_momentum_message :: str

definition week_actions :: "date \<Rightarrow> str \<Rightarrow> store \<Rightarrow> DailyAction list" where
  "week_actions today user_id db =
     (let week_start = today - weekday today;
          week_end = week_start + 6
      in filter (\<lambda>a. da_user_id a = user_id \<and> week_start \<le> da_day a \<and> da_day a \<le> week_end)
           (daily_actions db))"

definition generate_weekly_summary :: "date \<Rightarrow> str \<Rightarrow> store \<Rightarrow> weekly_summary" where
  "generate_weekly_summary today user_id db =
     (let week_start = today - weekday today;
          week_end = week_start + 6;
          actions = week_actions today user_id db;
          total' = length actions;
          completed = length (filter da_completed actions);
          completion_rate = (if total' \<noteq> 0 then percent completed total' else 0);
          progress = fold (\<lambda>a ps. progress_add (da_focus_area a) (da_completed a) ps) actions [];
          focus_areas_progress =
            map (\<lambda>(name, t, c). (name, c, t, round1 (if t \<noteq> 0 then percent c t else 0))) progress;
          wins = take 5 (map (\<lambda>a. da_focus_area a @ lit '': '' @ da_action a)
                           (filter da_completed actions))
      in \<lparr>w_week_start = week_start, w_week_end = week_end, w_total_actions = total',
          w_completed_actions = completed, w_completion_rate = round1 completion_rate,
          w_focus_areas_progress = focus_areas_progress, w_wins = wins,
          w_momentum_message = momentum_message_of completion_rate completed\<rparr>)"

section \<open>Check-in\<close>

record CheckInRequest =
  req_action_id :: str
  req_completed :: bool

datatype http_error = HTTPException nat str

text \<open>
  The route \<open>check_in\<close>: one \<open>UPDATE\<close> of every row with the requested id and the
  caller's user id, then a 404 if no row matched. \<open>now\<close> is the clock reading.
\<close>

definition check_in :: "datetime \<Rightarrow> CheckInRequest \<Rightarrow> str \<Rightarrow> store \<Rightarrow> store \<times> (http_error + bool)" where
  "check_in now request user_id db =
     (let matches = (\<lambda>a. da_id a = req_action_id request \<and> da_user_id a = user_id);
          rowcount = length (filter matches (daily_actions db));
          db' = db\<lparr>daily_actions :=
                  map (\<lambda>a. if matches a
                            then a\<lparr>da_completed := req_completed request,
                                   da_completed_at := (if req_completed request then Some now else None)\<rparr>
                            else a) (daily_actions db)\<rparr>
      in (db', if rowcount = 0 then Inl (HTTPException 404 (lit ''Action not found''))
               else Inr True))"

section \<open>The fresh-action engine on unvalidated focus areas\<close>

text \<open>
  \<open>Plan.focus_areas\<close> is a JSONB column filled with whatever the text generator returned
  (lines 376 to 382 and 853 to 863), and a focus area is typed \<open>Dict[str, Any]\<close>. The
  definitions of this section repeat the action generator and the fresh-action engine on
  such values, with every exception as a result. A JSON value is \<open>null\<close>, a string, or
  any other value (number, boolean, array, object), of which only the Python truth value
  matters here.
\<close>

datatype json = JNull | JStr str | JOther bool

text \<open>The three keys the engine reads; \<open>None\<close> when the key is absent.\<close>

record area_any =
  aa_name :: "json option"
  aa_weekly_focus :: "json option"
  aa_monthly_direction :: "json option"

text \<open>
  What \<open>for area in (plan.focus_areas or [])\<close> iterates over: a falsy value gives no
  item, an array its elements, an object its keys and a string its characters (none of
  them an object), and a non-zero number or \<open>true\<close> cannot be iterated.
\<close>

datatype item_any = NotObject | Object area_any

datatype focus_areas_any = NotIterable | Items "item_any list"

record plan_any =
  pa_id :: str
  pa_user_id :: str
  pa_goal_id :: str
  pa_focus_areas :: focus_areas_any
  pa_timeline :: str
  pa_status :: str

record store_any =
  sa_daily_actions :: "DailyAction list"
  sa_plans :: "plan_any list"
  sa_uuid_calls :: nat

text \<open>
  The exceptions that leave the engine. \<open>StoreError\<close> is a failed commit: an
  \<open>IntegrityError\<close> for a null in a \<open>nullable=False\<close> column, a driver error for a value
  that is not a string or does not fit \<open>String(128)\<close>.
\<close>

datatype py_error = AttributeError | TypeError | StoreError

text \<open>\<open>(x or d).strip()\<close> for \<open>x\<close> the result of \<open>dict.get\<close>: only \<open>str\<close> has \<open>strip\<close>.\<close>

definition strip_or :: "json option \<Rightarrow> str \<Rightarrow> py_error + str" where
  "strip_or x d =
     (case x of
        None \<Rightarrow> Inr (strip d)
      | Some JNull \<Rightarrow> Inr (strip d)
      | Some (JStr s) \<Rightarrow> Inr (strip (if s = [] then d else s))
      | Some (JOther truthy) \<Rightarrow> (if truthy then Inl AttributeError else Inr (strip d)))"

definition fallback_next_action_any :: "area_any \<Rightarrow> int \<Rightarrow> py_error + str" where
  "fallback_next_action_any focus_area day_index =
     (case strip_or (aa_name focus_area) (lit ''Focus'') of
        Inl e \<Rightarrow> Inl e
      | Inr name \<Rightarrow>
     (case strip_or (aa_weekly_focus focus_area) [] of
        Inl e \<Rightarrow> Inl e
      | Inr weekly \<Rightarrow>
     (case strip_or (aa_monthly_direction focus_area) [] of
        Inl e \<Rightarrow> Inl e
      | Inr monthly \<Rightarrow>
          let base = (if weekly \<noteq> [] then weekly
                      else if monthly \<noteq> [] then monthly
                      else lit ''Move this forward with a small concrete step.'');
              variants =
                [lit ''Do a 15'' @ [8211] @ lit ''30 min micro-step toward: '' @ base,
                 lit ''Make it real: produce a tiny deliverable toward: '' @ base,
                 lit ''Remove one blocker for: '' @ base
                   @ lit '' (list 3 sub-steps, then do the first)'',
                 lit ''Ship something small today for: '' @ base,
                 lit ''Review + adjust: what did you learn about '' @ name
                   @ lit ''? Then choose the next tiny step.'']
          in Inr (variants ! nat (day_index mod int (length variants))))))"

text \<open>\<open>area.get("name", "Focus")\<close>: the default only when the key is absent.\<close>

definition focus_name_any :: "area_any \<Rightarrow> json" where
  "focus_name_any area = (case aa_name area of None \<Rightarrow> JStr (lit ''Focus'') | Some v \<Rightarrow> v)"

definition y_items_any :: "area_any \<Rightarrow> DailyAction list \<Rightarrow> (str \<times> bool) list" where
  "y_items_any focus_area yesterday_actions =
     map (\<lambda>a. (da_action a, da_completed a))
       (filter (\<lambda>a. JStr (da_focus_area a) = focus_name_any focus_area) yesterday_actions)"

type_synonym client_any =
  "nat \<Rightarrow> plan_any \<Rightarrow> area_any \<Rightarrow> (str \<times> bool) list \<Rightarrow> int \<Rightarrow> ai_response"

text \<open>
  The fallback is called inside the \<open>try\<close> block (blank content) and inside the
  \<open>except\<close> block (a raising call); an exception it raises in the first is caught
  and raised again by the second, so either way it leaves the coroutine.
\<close>

definition generate_next_action_with_ai_any ::
  "client_any option \<Rightarrow> nat \<Rightarrow> plan_any \<Rightarrow> area_any \<Rightarrow> DailyAction list \<Rightarrow> int \<Rightarrow> py_error + str"
where
  "generate_next_action_with_ai_any openai_client call_no plan focus_area yesterday_actions day_index =
     (case openai_client of
        None \<Rightarrow> fallback_next_action_any focus_area day_index
      | Some create \<Rightarrow>
          let y_items = y_items_any focus_area yesterday_actions
          in case create call_no plan focus_area y_items day_index of
               Raises \<Rightarrow> fallback_next_action_any focus_area day_index
             | Content c \<Rightarrow>
                 let out = strip (or_str c []) in
                 if out = [] then fallback_next_action_any focus_area day_index
                 else (case splitlines_first out of
                         None \<Rightarrow> fallback_next_action_any focus_area day_index
                       | Some l \<Rightarrow> Inr (strip l)))"

definition gen_one_any ::
  "client_any option \<Rightarrow> nat \<Rightarrow> plan_any \<Rightarrow> area_any \<Rightarrow> int \<Rightarrow> DailyAction list \<Rightarrow> py_error + str"
where
  "gen_one_any openai_client call_no plan area day_index y_list =
     (case openai_client of
        None \<Rightarrow> fallback_next_action_any area day_index
      | Some _ \<Rightarrow> generate_next_action_with_ai_any openai_client call_no plan area y_list day_index)"

text \<open>
  Lines 566 to 570 and the entry of \<open>results\<close> they lead to. With a client the pair
  becomes a task, and \<open>gather\<close> returns what the task raises as a value. Without one the
  fallback is evaluated in the loop itself, before any task exists, and what it raises
  leaves the engine.
\<close>

definition task_any ::
  "client_any option \<Rightarrow> nat \<Rightarrow> plan_any \<Rightarrow> area_any \<Rightarrow> int \<Rightarrow> DailyAction list
     \<Rightarrow> py_error + task_result"
where
  "task_any openai_client call_no plan area day_index y_list =
     (case openai_client of
        Some _ \<Rightarrow>
          Inr (case gen_one_any openai_client call_no plan area day_index y_list of
                 Inl e \<Rightarrow> Exc
               | Inr r \<Rightarrow> Result r)
      | None \<Rightarrow>
          (case fallback_next_action_any area day_index of
             Inl e \<Rightarrow> Inl e
           | Inr r \<Rightarrow> Inr (Result r)))"

definition active_plans_any :: "str \<Rightarrow> store_any \<Rightarrow> plan_any list" where
  "active_plans_any user_id db =
     filter (\<lambda>p. pa_user_id p = user_id \<and> pa_status p = lit ''active'') (sa_plans db)"

definition existing_fresh_plan_ids_any :: "date \<Rightarrow> str \<Rightarrow> store_any \<Rightarrow> str set" where
  "existing_fresh_plan_ids_any today user_id db =
     set (map da_plan_id
       (filter (\<lambda>a. da_user_id a = user_id \<and> da_day a = today \<and> da_rescheduled_from a = None
                    \<and> da_plan_id a \<in> set (map pa_id (active_plans_any user_id db)))
          (sa_daily_actions db)))"

definition plans_to_generate_any :: "date \<Rightarrow> str \<Rightarrow> store_any \<Rightarrow> plan_any list" where
  "plans_to_generate_any today user_id db =
     filter (\<lambda>p. pa_id p \<notin> existing_fresh_plan_ids_any today user_id db)
       (active_plans_any user_id db)"

definition y_by_plan_any :: "date \<Rightarrow> str \<Rightarrow> store_any \<Rightarrow> str \<Rightarrow> DailyAction list" where
  "y_by_plan_any today user_id db pid =
     filter (\<lambda>a. da_plan_id a = pid)
       (filter (\<lambda>a. da_user_id a = user_id
                    \<and> da_plan_id a \<in> set (map pa_id (plans_to_generate_any today user_id db))
                    \<and> da_day a = today - 1) (sa_daily_actions db))"

definition first_day_by_plan_any :: "date \<Rightarrow> str \<Rightarrow> store_any \<Rightarrow> str \<Rightarrow> date option" where
  "first_day_by_plan_any today user_id db pid =
     (if pid \<in> set (map pa_id (plans_to_generate_any today user_id db))
      then (case map da_day (filter (\<lambda>a. da_user_id a = user_id \<and> da_plan_id a = pid)
                               (sa_daily_actions db)) of
              [] \<Rightarrow> None
            | d # ds \<Rightarrow> Some (fold min ds d))
      else None)"

definition day_index_any :: "date \<Rightarrow> str \<Rightarrow> store_any \<Rightarrow> plan_any \<Rightarrow> int" where
  "day_index_any today user_id db plan =
     (case first_day_by_plan_any today user_id db (pa_id plan) of
        None \<Rightarrow> 0
      | Some f \<Rightarrow> today - f)"

text \<open>
  The inner loop at lines 561 to 570 from call number \<open>n\<close> on: the entries of
  \<open>task_meta\<close> (plan id and focus name) with the entries of \<open>results\<close>, or the first
  exception.
\<close>

fun area_loop ::
  "client_any option \<Rightarrow> plan_any \<Rightarrow> int \<Rightarrow> DailyAction list \<Rightarrow> nat \<Rightarrow> item_any list
     \<Rightarrow> py_error + (str \<times> json \<times> task_result) list"
where
  "area_loop openai_client plan day_index y_list n [] = Inr []"
| "area_loop openai_client plan day_index y_list n (NotObject # items) = Inl AttributeError"
| "area_loop openai_client plan day_index y_list n (Object area # items) =
     (case task_any openai_client n plan area day_index y_list of
        Inl e \<Rightarrow> Inl e
      | Inr r \<Rightarrow>
          (case area_loop openai_client plan day_index y_list (Suc n) items of
             Inl e \<Rightarrow> Inl e
           | Inr es \<Rightarrow> Inr ((pa_id plan, focus_name_any area, r) # es)))"

text \<open>The outer loop at line 556.\<close>

fun plan_loop ::
  "client_any option \<Rightarrow> date \<Rightarrow> str \<Rightarrow> store_any \<Rightarrow> nat \<Rightarrow> plan_any list
     \<Rightarrow> py_error + (str \<times> json \<times> task_result) list"
where
  "plan_loop openai_client today user_id db n [] = Inr []"
| "plan_loop openai_client today user_id db n (plan # rest) =
     (case pa_focus_areas plan of
        NotIterable \<Rightarrow> Inl TypeError
      | Items items \<Rightarrow>
          (case area_loop openai_client plan (day_index_any today user_id db plan)
                  (y_by_plan_any today user_id db (pa_id plan)) n items of
             Inl e \<Rightarrow> Inl e
           | Inr es \<Rightarrow>
               (case plan_loop openai_client today user_id db (n + length es) rest of
                  Inl e \<Rightarrow> Inl e
                | Inr es' \<Rightarrow> Inr (es @ es'))))"

text \<open>
  What the column \<open>focus_area\<close>, a \<open>String(128)\<close> that is not nullable, stores for a
  value: nothing for a null or a non-string; a string of more than 128 characters only
  when the excess is all spaces, cut to 128.
\<close>

definition varchar :: "nat \<Rightarrow> str \<Rightarrow> str option" where
  "varchar n s =
     (if length s \<le> n then Some s
      else if list_all (\<lambda>c. c = 32) (drop n s) then Some (take n s)
      else None)"

definition stored_name :: "json \<Rightarrow> str option" where
  "stored_name v = (case v of JStr s \<Rightarrow> varchar 128 s | JNull \<Rightarrow> None | JOther b \<Rightarrow> None)"

text \<open>The row of lines 581 to 593 for entry \<open>i\<close>, if the store accepts it.\<close>

definition new_row_any ::
  "(nat \<Rightarrow> str) \<Rightarrow> date \<Rightarrow> str \<Rightarrow> nat \<Rightarrow> nat \<Rightarrow> (str \<times> json \<times> task_result) \<Rightarrow> DailyAction option"
where
  "new_row_any uuid4 today user_id n0 i entry =
     (case entry of (plan_id, name_json, result) \<Rightarrow>
        (case stored_name name_json of
           None \<Rightarrow> None
         | Some name \<Rightarrow>
             Some \<lparr>da_id = uuid4 (n0 + i), da_user_id = user_id, da_plan_id = plan_id,
                   da_focus_area = name, da_action = action_text_of result,
                   da_day = today, da_completed = False, da_completed_at = None,
                   da_rescheduled_from = None\<rparr>))"

text \<open>
  \<open>ensure_fresh_actions_for_today\<close> on unvalidated plans: an exception of the loop leaves
  the engine before anything is added; the single commit stores all rows or none.
\<close>

definition ensure_fresh_actions_for_today_any ::
  "client_any option \<Rightarrow> (nat \<Rightarrow> str) \<Rightarrow> date \<Rightarrow> str \<Rightarrow> store_any \<Rightarrow> py_error + store_any"
where
  "ensure_fresh_actions_for_today_any openai_client uuid4 today user_id db =
     (if active_plans_any user_id db = [] then Inr db
      else if plans_to_generate_any today user_id db = [] then Inr db
      else
        (case plan_loop openai_client today user_id db 0 (plans_to_generate_any today user_id db) of
           Inl e \<Rightarrow> Inl e
         | Inr entries \<Rightarrow>
             (case those (map (\<lambda>(i, entry). new_row_any uuid4 today user_id (sa_uuid_calls db) i entry)
                            (zip [0 ..< length entries] entries)) of
                None \<Rightarrow> Inl StoreError
              | Some rows \<Rightarrow>
                  Inr (db\<lparr>sa_daily_actions := sa_daily_actions db @ rows,
                          sa_uuid_calls := sa_uuid_calls db + length entries\<rparr>))))"

text \<open>
  The pairs the claim speaks of: every object among the focus areas of every plan that
  lacks a fresh row, with the plan's day index and yesterday's rows.
\<close>

definition areas_of :: "plan_any \<Rightarrow> area_any list" where
  "areas_of plan =
     (case pa_focus_areas plan of
        NotIterable \<Rightarrow> []
      | Items items \<Rightarrow> concat (map (\<lambda>it. case it of NotObject \<Rightarrow> [] | Object a \<Rightarrow> [a]) items))"

definition jobs_of_plans ::
  "date \<Rightarrow> str \<Rightarrow> store_any \<Rightarrow> plan_any list
     \<Rightarrow> (plan_any \<times> area_any \<times> int \<times> DailyAction list) list"
where
  "jobs_of_plans today user_id db ps =
     concat (map (\<lambda>plan. map (\<lambda>area. (plan, area, day_index_any today user_id db plan,
                                          y_by_plan_any today user_id db (pa_id plan)))
                            (areas_of plan)) ps)"

definition jobs_any ::
  "date \<Rightarrow> str \<Rightarrow> store_any \<Rightarrow> (plan_any \<times> area_any \<times> int \<times> DailyAction list) list"
where
  "jobs_any today user_id db = jobs_of_plans today user_id db (plans_to_generate_any today user_id db)"

definition generator_fails_any ::
  "client_any option \<Rightarrow> nat \<Rightarrow> plan_any \<Rightarrow> area_any \<Rightarrow> int \<Rightarrow> DailyAction list \<Rightarrow> bool"
where
  "generator_fails_any openai_client call_no plan area day_index y_list =
     (case openai_client of
        None \<Rightarrow> True
      | Some create \<Rightarrow>
          (case create call_no plan area (y_items_any area y_list) day_index of
             Raises \<Rightarrow> True
           | Content c \<Rightarrow> strip (or_str c []) = []))"

text \<open>
  The focus areas the amended claim is about: the name is a string that fits the column,
  so the commit succeeds; and when no client is configured, no field makes the fallback
  raise.
\<close>

definition fallback_safe :: "area_any \<Rightarrow> bool" where
  "fallback_safe area =
     (aa_name area \<noteq> Some (JOther True) \<and> aa_weekly_focus area \<noteq> Some (JOther True)
      \<and> aa_monthly_direction area \<noteq> Some (JOther True))"

definition storable_name :: "area_any \<Rightarrow> bool" where
  "storable_name area =
     (case focus_name_any area of JStr s \<Rightarrow> length s \<le> 128 | JNull \<Rightarrow> False | JOther b \<Rightarrow> False)"

definition well_formed_item :: "client_any option \<Rightarrow> item_any \<Rightarrow> bool" where
  "well_formed_item openai_client it =
     (case it of
        NotObject \<Rightarrow> False
      | Object area \<Rightarrow>
          storable_name area
          \<and> (case openai_client of None \<Rightarrow> fallback_safe area | Some _ \<Rightarrow> True))"

definition well_formed_plan :: "client_any option \<Rightarrow> plan_any \<Rightarrow> bool" where
  "well_formed_plan openai_client plan =
     (case pa_focus_areas plan of
        NotIterable \<Rightarrow> False
      | Items items \<Rightarrow> list_all (well_formed_item openai_client) items)"

text \<open>The string a field holds, if it holds one.\<close>

definition as_text :: "json option \<Rightarrow> str option" where
  "as_text x = (case x of Some (JStr s) \<Rightarrow> Some s | _ \<Rightarrow> None)"

text \<open>
  A plan whose focus areas hold strings only, seen as an unvalidated one, and back; a
  client of the one engine as a client of the other.
\<close>

definition embed_area :: "focus_area \<Rightarrow> area_any" where
  "embed_area a = \<lparr>aa_name = map_option JStr (fa_name a),
                   aa_weekly_focus = map_option JStr (fa_weekly_focus a),
                   aa_monthly_direction = map_option JStr (fa_monthly_direction a)\<rparr>"

definition embed_plan :: "Plan \<Rightarrow> plan_any" where
  "embed_plan p = \<lparr>pa_id = p_id p, pa_user_id = p_user_id p, pa_goal_id = p_goal_id p,
                   pa_focus_areas = Items (map (\<lambda>a. Object (embed_area a)) (p_focus_areas p)),
                   pa_timeline = p_timeline p, pa_status = p_status p\<rparr>"

definition embed_store :: "store \<Rightarrow> store_any" where
  "embed_store db = \<lparr>sa_daily_actions = daily_actions db, sa_plans = map embed_plan (plans db),
                     sa_uuid_calls = uuid_calls db\<rparr>"

definition typed_area :: "area_any \<Rightarrow> focus_area" where
  "typed_area a = \<lparr>fa_name = as_text (aa_name a), fa_weekly_focus = as_text (aa_weekly_focus a),
                   fa_monthly_direction = as_text (aa_monthly_direction a)\<rparr>"

definition typed_plan :: "plan_any \<Rightarrow> Plan" where
  "typed_plan p = \<lparr>p_id = pa_id p, p_user_id = pa_user_id p, p_goal_id = pa_goal_id p,
                   p_focus_areas = map typed_area (areas_of p),
                   p_timeline = pa_timeline p, p_status = pa_status p\<rparr>"

definition lift_client :: "client \<Rightarrow> client_any" where
  "lift_client create call_no plan area y_items day_index =
     create call_no (typed_plan plan) (typed_area area) y_items day_index"

section \<open>The route \<open>/daily/today\<close> and the properties stated below\<close>

text \<open>The query of \<open>today_actions\<close> (line 943): the user's rows of a day.\<close>

definition today_actions_q :: "date \<Rightarrow> str \<Rightarrow> store \<Rightarrow> DailyAction list" where
  "today_actions_q today user_id db =
     filter (\<lambda>a. da_user_id a = user_id \<and> da_day a = today) (daily_actions db)"

text \<open>
  \<open>carried_copy today a r\<close>: row \<open>r\<close> is a carried copy on \<open>today\<close> of row \<open>a\<close>, still
  open.
\<close>

definition carried_copy :: "date \<Rightarrow> DailyAction \<Rightarrow> DailyAction \<Rightarrow> bool" where
  "carried_copy today a r =
     (da_user_id r = da_user_id a \<and> da_day r = today \<and> da_rescheduled_from r = Some (today - 1)
      \<and> da_completed r = False \<and> da_plan_id r = da_plan_id a
      \<and> da_focus_area r = da_focus_area a \<and> da_action r = da_action a)"

definition has_carried_copy :: "date \<Rightarrow> DailyAction \<Rightarrow> store \<Rightarrow> bool" where
  "has_carried_copy today a db = list_ex (carried_copy today a) (daily_actions db)"

text \<open>
  The generator fails on a job: no client is configured, the call raises, or the content
  is \<open>None\<close>, empty or blank.
\<close>

definition generator_fails ::
  "client option \<Rightarrow> nat \<Rightarrow> Plan \<Rightarrow> focus_area \<Rightarrow> int \<Rightarrow> DailyAction list \<Rightarrow> bool"
where
  "generator_fails openai_client call_no plan area day_index y_list =
     (case openai_client of
        None \<Rightarrow> True
      | Some create \<Rightarrow>
          (case create call_no plan area (y_items_of area y_list) day_index of
             Raises \<Rightarrow> True
           | Content c \<Rightarrow> strip (or_str c []) = []))"

text \<open>A non-empty string without leading or trailing whitespace.\<close>

definition trimmed :: "str \<Rightarrow> bool" where
  "trimmed s = (s \<noteq> [] \<and> \<not> isspace (hd s) \<and> \<not> isspace (last s))"

text \<open>The days of all completed rows of the user, without the limit of the query.\<close>

definition all_completed_days :: "str \<Rightarrow> store \<Rightarrow> date list" where
  "all_completed_days user_id db =
     map da_day (filter (\<lambda>a. da_user_id a = user_id \<and> da_completed a = True) (daily_actions db))"

text \<open>
  From the claim's words: the count of consecutive completed calendar days starting at
  \<open>today\<close> with no gap. \<open>count_back\<close> walks back from a day while the day is among
  \<open>days\<close>; a run cannot be longer than the list.
\<close>

fun count_back :: "date \<Rightarrow> date list \<Rightarrow> nat \<Rightarrow> nat" where
  "count_back d days 0 = 0"
| "count_back d days (Suc fuel) =
     (if d \<in> set days then Suc (count_back (d - 1) days fuel) else 0)"

definition spec_current_streak :: "date \<Rightarrow> date list \<Rightarrow> nat" where
  "spec_current_streak today days = count_back today days (length days)"

section \<open>Example data\<close>

definition example_uuid4 :: "nat \<Rightarrow> str" where
  "example_uuid4 n = lit ''uuid-'' @ str_of_nat n"

definition run_row :: "bool \<Rightarrow> DailyAction" where
  "run_row done =
     \<lparr>da_id = lit ''a1'', da_user_id = lit ''u1'', da_plan_id = lit ''p1'',
      da_focus_area = lit ''Fitness'', da_action = lit ''Run 5k'', da_day = 9,
      da_completed = done, da_completed_at = (if done then Some 1000 else None),
      da_rescheduled_from = None\<rparr>"

definition cv_row :: DailyAction where
  "cv_row =
     \<lparr>da_id = lit ''a2'', da_user_id = lit ''u1'', da_plan_id = lit ''p1'',
      da_focus_area = lit ''Career'', da_action = lit ''Send CV'', da_day = 9,
      da_completed = False, da_completed_at = None, da_rescheduled_from = None\<rparr>"

text \<open>Day 9 of user \<open>u1\<close>: the run is done, the CV is not.\<close>

definition day9_store :: store where
  "day9_store = \<lparr>daily_actions = [run_row True, cv_row], plans = [], uuid_calls = 0\<rparr>"

text \<open>The request that marks the run of day 9 as not done after all.\<close>

definition undo_run :: CheckInRequest where
  "undo_run = \<lparr>req_action_id = lit ''a1'', req_completed = False\<rparr>"

text \<open>A plan of \<open>u1\<close> with two focus areas, a second plan, and a generator that always raises.\<close>

definition fitness_area :: focus_area where
  "fitness_area = \<lparr>fa_name = Some (lit ''Fitness''), fa_weekly_focus = Some (lit ''Run three times''),
                    fa_monthly_direction = None\<rparr>"

definition career_area :: focus_area where
  "career_area = \<lparr>fa_name = Some (lit ''Career''), fa_weekly_focus = None,
                   fa_monthly_direction = Some (lit ''Apply to five jobs'')\<rparr>"

definition example_plan :: Plan where
  "example_plan =
     \<lparr>p_id = lit ''p1'', p_user_id = lit ''u1'', p_goal_id = lit ''g1'',
      p_focus_areas = [fitness_area, career_area], p_timeline = lit ''3_months'',
      p_status = lit ''active''\<rparr>"

definition second_plan :: Plan where
  "second_plan = example_plan\<lparr>p_id := lit ''p2'', p_focus_areas := [career_area]\<rparr>"

definition failing_client :: client where
  "failing_client call_no plan area y_items day_index = Raises"

text \<open>Day 9 as above, with the plan in the store.\<close>

definition planned_store :: store where
  "planned_store = day9_store\<lparr>plans := [example_plan]\<rparr>"

text \<open>Day 10: the first plan already has a fresh row, the second has none.\<close>

definition fresh_row :: DailyAction where
  "fresh_row =
     \<lparr>da_id = lit ''f1'', da_user_id = lit ''u1'', da_plan_id = lit ''p1'',
      da_focus_area = lit ''Fitness'', da_action = lit ''Stretch'', da_day = 10,
      da_completed = False, da_completed_at = None, da_rescheduled_from = None\<rparr>"

definition day10_store :: store where
  "day10_store =
     \<lparr>daily_actions = [run_row True, cv_row, fresh_row],
      plans = [example_plan, second_plan], uuid_calls = 0\<rparr>"

text \<open>A zone six hours behind UTC all year.\<close>

definition six_hours_behind :: "datetime \<Rightarrow> int" where
  "six_hours_behind t = - 21600000000"

text \<open>
  A week of \<open>u1\<close>: ordinal 738000 is a Thursday, its week runs from 737997 to 738003.
  Ten rows of \<open>u1\<close> lie in that week, six of them done; one row of \<open>u1\<close> lies after
  it and one row of the week belongs to \<open>u2\<close>.
\<close>

definition week_row :: "nat \<Rightarrow> date \<Rightarrow> bool \<Rightarrow> DailyAction" where
  "week_row n d done =
     \<lparr>da_id = lit ''w'' @ str_of_nat n, da_user_id = lit ''u1'', da_plan_id = lit ''p1'',
      da_focus_area = lit ''Fitness'', da_action = lit ''Walk'', da_day = d,
      da_completed = done, da_completed_at = (if done then Some 1000 else None),
      da_rescheduled_from = None\<rparr>"

definition week_store :: store where
  "week_store =
     \<lparr>daily_actions =
        [week_row 0 737997 True, week_row 1 737997 False, week_row 2 737998 True,
         week_row 3 737999 True, week_row 4 738000 False, week_row 5 738000 True,
         week_row 6 738001 True, week_row 7 738002 False, week_row 8 738003 True,
         week_row 9 738003 False, week_row 10 738004 True,
         (week_row 11 738000 True)\<lparr>da_user_id := lit ''u2''\<rparr>],
      plans = [], uuid_calls = 0\<rparr>"

text \<open>
  Streak histories of \<open>u1\<close>, with \<open>today\<close> day 10: done on days 5 to 7, 9 and 10;
  done on days 9 to 11, one day ahead of \<open>today\<close>; and done once on day 9 and 2000
  times on day 10, one row more than the query fetches.
\<close>

definition streak_store :: store where
  "streak_store =
     \<lparr>daily_actions =
        [week_row 0 5 True, week_row 1 6 True, week_row 2 7 True, week_row 3 8 False,
         week_row 4 9 True, week_row 5 10 True, week_row 6 10 True],
      plans = [], uuid_calls = 0\<rparr>"

definition future_store :: store where
  "future_store =
     \<lparr>daily_actions = [week_row 0 9 True, week_row 1 10 True, week_row 2 11 True],
      plans = [], uuid_calls = 0\<rparr>"

definition busy_store :: store where
  "busy_store =
     \<lparr>daily_actions = week_row 0 9 True # map (\<lambda>n. week_row n 10 True) [1 ..< 2001],
      plans = [], uuid_calls = 0\<rparr>"

text \<open>
  Focus areas as the generator may return them: a regular one, one whose
  \<open>weekly_focus\<close> is the number 5, and one whose \<open>name\<close> is \<open>null\<close>; a plan of
  \<open>u1\<close> holding given focus areas, in a store with the rows of day 9.
\<close>

definition fitness_any :: area_any where
  "fitness_any = \<lparr>aa_name = Some (JStr (lit ''Fitness'')),
                   aa_weekly_focus = Some (JStr (lit ''Run three times'')),
                   aa_monthly_direction = None\<rparr>"

definition career_number :: area_any where
  "career_number = \<lparr>aa_name = Some (JStr (lit ''Career'')),
                     aa_weekly_focus = Some (JOther True),
                     aa_monthly_direction = None\<rparr>"

definition career_null_name :: area_any where
  "career_null_name = \<lparr>aa_name = Some JNull,
                        aa_weekly_focus = Some (JStr (lit ''Apply to five jobs'')),
                        aa_monthly_direction = None\<rparr>"

definition plan_holding :: "item_any list \<Rightarrow> plan_any" where
  "plan_holding its =
     \<lparr>pa_id = lit ''p1'', pa_user_id = lit ''u1'', pa_goal_id = lit ''g1'',
      pa_focus_areas = Items its, pa_timeline = lit ''3_months'', pa_status = lit ''active''\<rparr>"

definition store_holding :: "item_any list \<Rightarrow> store_any" where
  "store_holding its =
     \<lparr>sa_daily_actions = [run_row True, cv_row], sa_plans = [plan_holding its],
      sa_uuid_calls = 0\<rparr>"

definition failing_client_any :: client_any where
  "failing_client_any call_no plan area y_items day_index = Raises"

text \<open>Day 9 with the same open action stored twice, under two ids.\<close>

definition twin_store :: store where
  "twin_store =
     \<lparr>daily_actions = [run_row False, (run_row False)\<lparr>da_id := lit ''a3''\<rparr>],
      plans = [], uuid_calls = 0\<rparr>"

section \<open>Properties of the rollover engine\<close>

lemma to_add_loop_rows:
  "r \<in> set (to_add_loop uuid4 n today K rows) \<Longrightarrow>
     da_day r = today \<and> da_rescheduled_from r = Some (today - 1) \<and> da_completed r = False
     \<and> (\<exists>a \<in> set rows. key_of a \<notin> K \<and> key_of r = key_of a \<and> da_user_id r = da_user_id a)"
  by (induction rows arbitrary: n) (auto simp: key_of_def split: if_splits)

lemma to_add_loop_covers:
  "a \<in> set rows \<Longrightarrow> key_of a \<notin> K \<Longrightarrow>
     \<exists>r \<in> set (to_add_loop uuid4 n today K rows).
        key_of r = key_of a \<and> da_user_id r = da_user_id a \<and> da_day r = today
        \<and> da_rescheduled_from r = Some (today - 1) \<and> da_completed r = False"
  by (induction rows arbitrary: n) (auto simp: key_of_def)

lemma to_add_loop_Nil:
  "(to_add_loop uuid4 n today K rows = []) = (\<forall>a \<in> set rows. key_of a \<in> K)"
  by (induction rows arbitrary: n) auto

lemma carried_today_append:
  "carried_today today u (db\<lparr>daily_actions := daily_actions db @ xs, uuid_calls := k\<rparr>)
     = carried_today today u db @ filter (\<lambda>a. da_user_id a = u \<and> da_day a = today
                 \<and> da_rescheduled_from a = Some (today - 1)) xs"
  by (simp add: carried_today_def)

lemma yesterday_incomplete_append:
  assumes "\<forall>r \<in> set xs. da_day r = today"
  shows "yesterday_incomplete today u (db\<lparr>daily_actions := daily_actions db @ xs, uuid_calls := k\<rparr>)
     = yesterday_incomplete today u db"
proof -
  have "filter (\<lambda>a. da_user_id a = u \<and> da_day a = today - 1 \<and> da_completed a = False) xs = []"
    using assms by (auto simp: filter_empty_conv)
  then show ?thesis by (simp add: yesterday_incomplete_def)
qed

lemma yesterday_incomplete_user:
  "a \<in> set (yesterday_incomplete today u db) \<Longrightarrow> da_user_id a = u"
  by (simp add: yesterday_incomplete_def)

lemma reschedule_twice:
  "reschedule_incomplete_actions uuid4' today user_id
     (reschedule_incomplete_actions uuid4 today user_id db)
   = reschedule_incomplete_actions uuid4 today user_id db"
proof -
  define rows where "rows = yesterday_incomplete today user_id db"
  define K where "K = set (map key_of (carried_today today user_id db))"
  define to_add where "to_add = to_add_loop uuid4 (uuid_calls db) today K rows"
  define db' where "db' = db\<lparr>daily_actions := daily_actions db @ to_add,
                     uuid_calls := uuid_calls db + length to_add\<rparr>"
  have "(\<forall>uu. reschedule_incomplete_actions uu today user_id db = db)
      \<or> (reschedule_incomplete_actions uuid4 today user_id db = db' \<and> to_add \<noteq> [])"
    unfolding reschedule_incomplete_actions_def rows_def K_def to_add_def db'_def
    by (simp add: Let_def to_add_loop_Nil)
  then consider (same) "\<forall>uu. reschedule_incomplete_actions uu today user_id db = db"
    | (added) "reschedule_incomplete_actions uuid4 today user_id db = db'" "to_add \<noteq> []"
    by blast
  then show ?thesis
  proof cases
    case same
    then show ?thesis by simp
  next
    case added
    have day: "\<forall>r \<in> set to_add. da_day r = today"
      unfolding to_add_def using to_add_loop_rows by blast
    have all_carried: "filter (\<lambda>a. da_user_id a = user_id \<and> da_day a = today
                 \<and> da_rescheduled_from a = Some (today - 1)) to_add = to_add"
      unfolding to_add_def rows_def
      by (rule filter_True) (use to_add_loop_rows yesterday_incomplete_user in metis)
    have rows': "yesterday_incomplete today user_id db' = rows"
      unfolding db'_def rows_def by (rule yesterday_incomplete_append [OF day])
    have carried': "carried_today today user_id db' = carried_today today user_id db @ to_add"
      unfolding db'_def by (simp add: carried_today_append all_carried)
    have keys': "\<forall>a \<in> set rows. key_of a \<in> set (map key_of (carried_today today user_id db'))"
    proof
      fix a assume a: "a \<in> set rows"
      show "key_of a \<in> set (map key_of (carried_today today user_id db'))"
      proof (cases "key_of a \<in> K")
        case True
        then show ?thesis by (auto simp: carried' K_def)
      next
        case False
        from to_add_loop_covers [OF a False, of uuid4 "uuid_calls db" today]
        obtain r where "r \<in> set to_add" "key_of r = key_of a"
          unfolding to_add_def by blast
        then have "key_of a \<in> key_of ` set to_add" by (metis imageI)
        then show ?thesis by (simp add: carried')
      qed
    qed
    have "to_add_loop uuid4' (uuid_calls db') today
            (set (map key_of (carried_today today user_id db'))) rows = []"
      using keys' by (simp only: to_add_loop_Nil)
    then have "reschedule_incomplete_actions uuid4' today user_id db' = db'"
      unfolding reschedule_incomplete_actions_def Let_def rows'
      by (simp split: option.splits)
    with added show ?thesis by simp
  qed
qed

lemma reschedule_guard:
  assumes "carried_today today user_id db \<noteq> []"
    and "\<forall>a \<in> set (daily_actions db). da_id a \<noteq> []"
  shows "reschedule_incomplete_actions uuid4 today user_id db = db"
proof -
  from assms(1) obtain x xs where c: "carried_today today user_id db = x # xs"
    by (cases "carried_today today user_id db") auto
  then have "x \<in> set (carried_today today user_id db)" by simp
  then have "x \<in> set (daily_actions db)" by (simp add: carried_today_def)
  with assms(2) have "da_id x \<noteq> []" by blast
  then show ?thesis
    by (simp add: reschedule_incomplete_actions_def c scalar_one_or_none_def)
qed

text \<open>
  C1 (idempotent rollover). Running the rollover engine a second time for the same user
  and the same logical day returns the store the first run left, whatever ids the second
  run would draw: it inserts nothing. And whenever the user already has a row of \<open>today\<close>
  carried from yesterday (ids being non-empty strings), the engine returns the store as
  it is.
\<close>

theorem reschedule_idempotent:
  "reschedule_incomplete_actions uuid4' today user_id
     (reschedule_incomplete_actions uuid4 today user_id db)
   = reschedule_incomplete_actions uuid4 today user_id db
   \<and> (carried_today today user_id db \<noteq> [] \<and> (\<forall>a \<in> set (daily_actions db). da_id a \<noteq> [])
        \<longrightarrow> reschedule_incomplete_actions uuid4 today user_id db = db)"
  using reschedule_twice reschedule_guard by blast

lemma lit_Nil: "lit [] = []"
  by (simp add: lit_def)

lemma lit_Cons: "lit (c # cs) = of_char c # lit cs"
  by (simp add: lit_def)

lemma day9_rollover:
  "daily_actions (reschedule_incomplete_actions example_uuid4 10 (lit ''u1'') day9_store)
   = [run_row True, cv_row,
      cv_row\<lparr>da_id := lit ''uuid-0'', da_day := 10, da_rescheduled_from := Some 9\<rparr>]"
  by (simp add: reschedule_incomplete_actions_def carried_today_def yesterday_incomplete_def
      day9_store_def run_row_def cv_row_def scalar_one_or_none_def key_of_def example_uuid4_def
      str_of_nat.simps lit_def)

theorem reschedule_idempotent_witness:
  "carried_today 10 (lit ''u1'')
     (reschedule_incomplete_actions example_uuid4 10 (lit ''u1'') day9_store) \<noteq> []
   \<and> reschedule_incomplete_actions example_uuid4 10 (lit ''u1'')
       (reschedule_incomplete_actions example_uuid4 10 (lit ''u1'') day9_store)
     = reschedule_incomplete_actions example_uuid4 10 (lit ''u1'') day9_store"
proof -
  have "carried_today 10 (lit ''u1'')
     (reschedule_incomplete_actions example_uuid4 10 (lit ''u1'') day9_store) \<noteq> []"
    unfolding carried_today_def day9_rollover by (simp add: run_row_def cv_row_def)
  moreover have "\<forall>a \<in> set (daily_actions
      (reschedule_incomplete_actions example_uuid4 10 (lit ''u1'') day9_store)). da_id a \<noteq> []"
    unfolding day9_rollover by (simp add: run_row_def cv_row_def lit_Cons)
  ultimately show ?thesis
    using reschedule_idempotent [of example_uuid4 10 "lit ''u1''" example_uuid4
        "reschedule_incomplete_actions example_uuid4 10 (lit ''u1'') day9_store"]
    by blast
qed

text \<open>
  C2 (no-loss carry-forward), as amended. If the user has no row of \<open>today\<close> carried from
  yesterday when the rollover engine runs, then every open row of yesterday has, after the
  run, an open carried copy on \<open>today\<close> with the same plan, focus area and action text.
\<close>

theorem carry_forward_first_run:
  assumes "a \<in> set (daily_actions db)"
    and "da_user_id a = user_id"
    and "da_day a = today - 1"
    and "da_completed a = False"
    and "carried_today today user_id db = []"
  shows "has_carried_copy today a (reschedule_incomplete_actions uuid4 today user_id db)"
proof -
  define rows where "rows = yesterday_incomplete today user_id db"
  define to_add where "to_add = to_add_loop uuid4 (uuid_calls db) today {} rows"
  have a_rows: "a \<in> set rows"
    using assms(1-4) by (simp add: rows_def yesterday_incomplete_def)
  then have rows_ne: "rows \<noteq> []" by auto
  from to_add_loop_covers [OF a_rows, of "{}" uuid4 "uuid_calls db" today]
  obtain r where r: "r \<in> set to_add" "key_of r = key_of a" "da_user_id r = da_user_id a"
    "da_day r = today" "da_rescheduled_from r = Some (today - 1)" "da_completed r = False"
    unfolding to_add_def by auto
  then have to_add_ne: "to_add \<noteq> []" by auto
  have res: "daily_actions (reschedule_incomplete_actions uuid4 today user_id db)
               = daily_actions db @ to_add"
    using rows_ne to_add_ne
    by (simp add: reschedule_incomplete_actions_def assms(5) scalar_one_or_none_def
        rows_def [symmetric] to_add_def [symmetric])
  have "carried_copy today a r"
    using r by (simp add: carried_copy_def key_of_def)
  with r(1) show ?thesis
    by (auto simp: has_carried_copy_def res list_ex_iff)
qed

theorem carry_forward_first_run_witness:
  "cv_row \<in> set (daily_actions day9_store) \<and> da_user_id cv_row = lit ''u1''
   \<and> da_day cv_row = 10 - 1 \<and> da_completed cv_row = False
   \<and> carried_today 10 (lit ''u1'') day9_store = []
   \<and> has_carried_copy 10 cv_row
        (reschedule_incomplete_actions example_uuid4 10 (lit ''u1'') day9_store)"
proof -
  have h: "cv_row \<in> set (daily_actions day9_store)" "da_user_id cv_row = lit ''u1''"
    "da_day cv_row = 10 - 1" "da_completed cv_row = False"
    "carried_today 10 (lit ''u1'') day9_store = []"
    by (simp_all add: day9_store_def cv_row_def run_row_def carried_today_def)
  from h carry_forward_first_run [OF h, of example_uuid4] show ?thesis by simp
qed

text \<open>
  The claim as stated fails: on day 10 the rollover carries the open CV action of day 9;
  the user then marks the run of day 9 as not done; the next rollover of day 10 returns at
  its guard, and the run, now an open row of day 9, has no carried copy on day 10.
\<close>

theorem carry_forward_counterexample:
  "\<not> has_carried_copy 10 (run_row False)
       (reschedule_incomplete_actions example_uuid4 10 (lit ''u1'')
          (fst (check_in 2000 undo_run (lit ''u1'')
             (reschedule_incomplete_actions example_uuid4 10 (lit ''u1'') day9_store))))"
  by (simp add: reschedule_incomplete_actions_def carried_today_def yesterday_incomplete_def
      day9_store_def run_row_def cv_row_def scalar_one_or_none_def key_of_def example_uuid4_def
      str_of_nat.simps lit_def has_carried_copy_def carried_copy_def check_in_def undo_run_def
      Let_def)

text \<open>
  C3 (de-duplication). Two open rows of day 9 with the same plan, focus area and action
  text are both carried: after one run of the rollover engine day 10 holds two rows that
  agree on plan, focus area, action text and \<open>rescheduled_from\<close>.
\<close>

theorem rollover_duplicates_twin_rows:
  "today_actions_q 10 (lit ''u1'')
     (reschedule_incomplete_actions example_uuid4 10 (lit ''u1'') twin_store)
   = [(run_row False)\<lparr>da_id := lit ''uuid-0'', da_day := 10, da_rescheduled_from := Some 9\<rparr>,
      (run_row False)\<lparr>da_id := lit ''uuid-1'', da_day := 10, da_rescheduled_from := Some 9\<rparr>]"
  by (simp add: reschedule_incomplete_actions_def carried_today_def yesterday_incomplete_def
      twin_store_def run_row_def scalar_one_or_none_def key_of_def example_uuid4_def
      str_of_nat.simps lit_def today_actions_q_def)

section \<open>Properties of the action generator\<close>

lemma islinebreak_isspace: "islinebreak c \<Longrightarrow> isspace c"
  by (auto simp: islinebreak_def isspace_def)

lemma strip_Nil_iff: "(strip s = []) = (\<forall>c \<in> set s. isspace c)"
proof -
  have "(strip s = []) = (\<forall>c \<in> set (dropWhile isspace s). isspace c)"
    by (simp add: strip_def dropWhile_eq_Nil_conv)
  also have "\<dots> = (\<forall>c \<in> set s. isspace c)"
  proof
    assume h: "\<forall>c \<in> set (dropWhile isspace s). isspace c"
    show "\<forall>c \<in> set s. isspace c"
    proof (cases "dropWhile isspace s")
      case Nil
      then show ?thesis by (simp add: dropWhile_eq_Nil_conv)
    next
      case (Cons x xs)
      then have "\<not> isspace x" by (metis hd_dropWhile list.sel(1) list.distinct(1))
      with h Cons show ?thesis by simp
    qed
  next
    assume "\<forall>c \<in> set s. isspace c"
    then show "\<forall>c \<in> set (dropWhile isspace s). isspace c"
      by (meson set_dropWhileD)
  qed
  finally show ?thesis .
qed

lemma strip_trimmed_id: "trimmed s \<Longrightarrow> strip s = s"
proof -
  assume t: "trimmed s"
  then obtain x xs where s: "s = x # xs" and x: "\<not> isspace x"
    by (cases s) (auto simp: trimmed_def)
  have 1: "dropWhile isspace s = s" using s x by simp
  from t have "rev s \<noteq> []" "\<not> isspace (hd (rev s))"
    by (simp_all add: trimmed_def hd_rev)
  then have 2: "dropWhile isspace (rev s) = rev s"
    by (cases "rev s") auto
  show ?thesis by (simp add: strip_def 1 2)
qed

lemma strip_trimmed: "strip s \<noteq> [] \<Longrightarrow> trimmed (strip s)"
proof -
  assume ne: "strip s \<noteq> []"
  define t where "t = dropWhile isspace s"
  define r where "r = dropWhile isspace (rev t)"
  have strip: "strip s = rev r" by (simp add: strip_def r_def t_def)
  with ne have rne: "r \<noteq> []" by simp
  then have last_ok: "\<not> isspace (hd r)"
    unfolding r_def by (metis hd_dropWhile)
  from rne have tne: "t \<noteq> []" unfolding r_def by auto
  then have hd_t: "\<not> isspace (hd t)" unfolding t_def by (metis hd_dropWhile)
  obtain ws where ws: "rev t = ws @ r"
    unfolding r_def by (metis takeWhile_dropWhile_id)
  then have "t = rev r @ rev ws" by (metis rev_append rev_rev_ident)
  with rne have "hd t = hd (rev r)" by simp
  with hd_t have "\<not> isspace (hd (rev r))" by simp
  moreover have "last (rev r) = hd r" using rne by (simp add: last_rev)
  ultimately show ?thesis
    using rne last_ok by (simp add: trimmed_def strip)
qed

lemma trimmed_append:
  "a \<noteq> [] \<Longrightarrow> \<not> isspace (hd a) \<Longrightarrow> b \<noteq> [] \<Longrightarrow> \<not> isspace (last b) \<Longrightarrow> trimmed (a @ b)"
  by (simp add: trimmed_def)

lemma fallback_trimmed: "trimmed (fallback_next_action area idx)"
proof -
  define name where "name = strip (or_str (fa_name area) (lit ''Focus''))"
  define weekly where "weekly = strip (or_str (fa_weekly_focus area) [])"
  define monthly where "monthly = strip (or_str (fa_monthly_direction area) [])"
  define base where "base = (if weekly \<noteq> [] then weekly
                  else if monthly \<noteq> [] then monthly
                  else lit ''Move this forward with a small concrete step.'')"
  have "trimmed base"
    unfolding base_def weekly_def monthly_def
    by (auto simp: strip_trimmed) (simp add: trimmed_def lit_Cons lit_Nil isspace_def)
  then have base: "base \<noteq> []" "\<not> isspace (last base)"
    by (simp_all add: trimmed_def)
  define k where "k = nat (idx mod 5)"
  have "k < 5" unfolding k_def by simp
  then consider "k = 0" | "k = 1" | "k = 2" | "k = 3" | "k = 4" by linarith
  then have "trimmed ([lit ''Do a 15'' @ [8211] @ lit ''30 min micro-step toward: '' @ base,
             lit ''Make it real: produce a tiny deliverable toward: '' @ base,
             lit ''Remove one blocker for: '' @ base
               @ lit '' (list 3 sub-steps, then do the first)'',
             lit ''Ship something small today for: '' @ base,
             lit ''Review + adjust: what did you learn about '' @ name
               @ lit ''? Then choose the next tiny step.''] ! k)"
    using base
    by cases (simp_all add: trimmed_def lit_Cons lit_Nil isspace_def)
  moreover have "fallback_next_action area idx =
            [lit ''Do a 15'' @ [8211] @ lit ''30 min micro-step toward: '' @ base,
             lit ''Make it real: produce a tiny deliverable toward: '' @ base,
             lit ''Remove one blocker for: '' @ base
               @ lit '' (list 3 sub-steps, then do the first)'',
             lit ''Ship something small today for: '' @ base,
             lit ''Review + adjust: what did you learn about '' @ name
               @ lit ''? Then choose the next tiny step.''] ! k"
    unfolding fallback_next_action_def Let_def name_def weekly_def monthly_def base_def k_def
    by simp
  ultimately show ?thesis by (simp only:)
qed

lemma action_text_of_trimmed: "trimmed r \<Longrightarrow> action_text_of (Result r) = r"
  by (simp add: action_text_of_def strip_trimmed_id) (simp add: trimmed_def)

section \<open>Properties of the fresh-action engine\<close>

lemma new_rows_length: "length (new_rows c uu today u db) = length (jobs today u db)"
  by (simp add: new_rows_def)

lemma new_rows_nth:
  "i < length (jobs today u db) \<Longrightarrow>
     new_rows c uu today u db ! i = new_row c uu today u (uuid_calls db) i (jobs today u db ! i)"
  by (simp add: new_rows_def)

lemma jobs_plan:
  "(p, area, idx, y) \<in> set (jobs today u db) \<Longrightarrow>
     p \<in> set (plans_to_generate today u db) \<and> area \<in> set (p_focus_areas p)"
  by (auto simp: jobs_def jobs_of_plan_def Let_def)

lemma jobs_Nil:
  "(jobs today u db = []) = (\<forall>p \<in> set (plans_to_generate today u db). p_focus_areas p = [])"
  by (auto simp: jobs_def jobs_of_plan_def Let_def)

lemma new_rows_fresh:
  assumes "r \<in> set (new_rows c uu today u db)"
  shows "da_user_id r = u \<and> da_day r = today \<and> da_rescheduled_from r = None
         \<and> da_completed r = False
         \<and> (\<exists>p \<in> set (plans_to_generate today u db). da_plan_id r = p_id p)"
proof -
  from assms obtain i where i: "i < length (jobs today u db)"
    and r: "r = new_row c uu today u (uuid_calls db) i (jobs today u db ! i)"
    by (metis in_set_conv_nth new_rows_length new_rows_nth)
  obtain p area idx y where j: "jobs today u db ! i = (p, area, idx, y)"
    by (metis prod_cases4)
  with i have "(p, area, idx, y) \<in> set (jobs today u db)"
    by (metis nth_mem)
  then have "p \<in> set (plans_to_generate today u db)"
    by (rule jobs_plan [THEN conjunct1])
  then show ?thesis
    by (auto simp: r j new_row_def)
qed

lemma new_rows_cover:
  assumes "p \<in> set (plans_to_generate today u db)" and "p_focus_areas p \<noteq> []"
  shows "\<exists>r \<in> set (new_rows c uu today u db). da_plan_id r = p_id p"
proof -
  from assms(2) obtain area where "area \<in> set (p_focus_areas p)"
    by (cases "p_focus_areas p") auto
  with assms(1) obtain idx y where "(p, area, idx, y) \<in> set (jobs today u db)"
    by (auto simp: jobs_def jobs_of_plan_def Let_def)
  then obtain i where i: "i < length (jobs today u db)" "jobs today u db ! i = (p, area, idx, y)"
    by (metis in_set_conv_nth)
  then have "new_rows c uu today u db ! i \<in> set (new_rows c uu today u db)"
    by (simp add: new_rows_length)
  moreover have "da_plan_id (new_rows c uu today u db ! i) = p_id p"
    using i by (simp add: new_rows_nth new_row_def)
  ultimately show ?thesis by blast
qed

text \<open>The early returns insert nothing, so every run appends \<open>new_rows\<close>.\<close>

lemma ensure_eq:
  "ensure_fresh_actions_for_today c uu today u db
     = db\<lparr>daily_actions := daily_actions db @ new_rows c uu today u db,
          uuid_calls := uuid_calls db + length (jobs today u db)\<rparr>"
proof -
  have "plans_to_generate today u db = [] \<Longrightarrow> jobs today u db = []"
    by (simp add: jobs_def)
  moreover have "active_plans u db = [] \<Longrightarrow> plans_to_generate today u db = []"
    by (simp add: plans_to_generate_def)
  moreover have "jobs today u db = [] \<Longrightarrow> new_rows c uu today u db = []"
    by (simp add: new_rows_def)
  ultimately show ?thesis
    by (auto simp: ensure_fresh_actions_for_today_def)
qed

lemma active_plans_upd:
  "active_plans u (db\<lparr>daily_actions := xs, uuid_calls := k\<rparr>) = active_plans u db"
  by (simp add: active_plans_def)

lemma existing_fresh_append:
  "existing_fresh_plan_ids today u (db\<lparr>daily_actions := daily_actions db @ xs, uuid_calls := k\<rparr>)
     = existing_fresh_plan_ids today u db
       \<union> da_plan_id ` {x \<in> set xs. da_user_id x = u \<and> da_day x = today
                          \<and> da_rescheduled_from x = None
                          \<and> da_plan_id x \<in> p_id ` set (active_plans u db)}"
  by (auto simp: existing_fresh_plan_ids_def active_plans_upd)

text \<open>After a run, no plan that still lacks a fresh row has a focus area.\<close>

lemma ensure_settled:
  "jobs today u (ensure_fresh_actions_for_today c uu today u db) = []"
proof -
  define db' where "db' = ensure_fresh_actions_for_today c uu today u db"
  have db': "db' = db\<lparr>daily_actions := daily_actions db @ new_rows c uu today u db,
          uuid_calls := uuid_calls db + length (jobs today u db)\<rparr>"
    unfolding db'_def by (rule ensure_eq)
  have act: "active_plans u db' = active_plans u db"
    unfolding db' by (rule active_plans_upd)
  have ex: "existing_fresh_plan_ids today u db' = existing_fresh_plan_ids today u db
       \<union> da_plan_id ` {x \<in> set (new_rows c uu today u db). da_user_id x = u \<and> da_day x = today
                          \<and> da_rescheduled_from x = None
                          \<and> da_plan_id x \<in> p_id ` set (active_plans u db)}"
    unfolding db' by (rule existing_fresh_append)
  have "p_focus_areas p = []" if p: "p \<in> set (plans_to_generate today u db')" for p
  proof (rule ccontr)
    assume ne: "p_focus_areas p \<noteq> []"
    from p have pa: "p \<in> set (active_plans u db)"
      and notin: "p_id p \<notin> existing_fresh_plan_ids today u db'"
      by (simp_all add: plans_to_generate_def act)
    from notin have "p_id p \<notin> existing_fresh_plan_ids today u db"
      by (simp add: ex)
    with pa have "p \<in> set (plans_to_generate today u db)"
      by (simp add: plans_to_generate_def)
    from new_rows_cover [OF this ne, of c uu]
    obtain r where r: "r \<in> set (new_rows c uu today u db)" "da_plan_id r = p_id p"
      by blast
    from new_rows_fresh [OF r(1)] have "da_user_id r = u" "da_day r = today"
      "da_rescheduled_from r = None" by simp_all
    moreover have "da_plan_id r \<in> p_id ` set (active_plans u db)"
      using pa r(2) by simp
    ultimately have "p_id p \<in> existing_fresh_plan_ids today u db'"
      unfolding ex using r by (metis (mono_tags, lifting) UnI2 imageI mem_Collect_eq)
    with notin show False by simp
  qed
  then show ?thesis
    unfolding db'_def [symmetric] by (simp add: jobs_Nil)
qed

lemma new_rows_skip:
  assumes "a \<in> set (daily_actions db)" and "da_user_id a = u" and "da_day a = today"
    and "da_rescheduled_from a = None" and "r \<in> set (new_rows c uu today u db)"
  shows "da_plan_id r \<noteq> da_plan_id a"
proof
  assume eq: "da_plan_id r = da_plan_id a"
  from new_rows_fresh [OF assms(5)] obtain p where
    p: "p \<in> set (plans_to_generate today u db)" "da_plan_id r = p_id p" by blast
  then have pa: "p \<in> set (active_plans u db)"
    and "p_id p \<notin> existing_fresh_plan_ids today u db"
    by (simp_all add: plans_to_generate_def)
  moreover have "p_id p \<in> existing_fresh_plan_ids today u db"
    using assms(1-4) eq p(2) pa by (force simp: existing_fresh_plan_ids_def)
  ultimately show False by simp
qed

text \<open>
  C4 (idempotent fresh-action generation). A second run of the fresh-action engine for
  the same user and logical day returns the store the first run left, whatever the
  generator and the ids of the second run would be. A run appends exactly \<open>new_rows\<close>, and
  no row of \<open>new_rows\<close> belongs to a plan that already has a fresh row of the user for
  today.
\<close>

theorem ensure_fresh_idempotent:
  "ensure_fresh_actions_for_today c' uu' today u (ensure_fresh_actions_for_today c uu today u db)
     = ensure_fresh_actions_for_today c uu today u db
   \<and> daily_actions (ensure_fresh_actions_for_today c uu today u db)
       = daily_actions db @ new_rows c uu today u db
   \<and> (\<forall>a \<in> set (daily_actions db). \<forall>r \<in> set (new_rows c uu today u db).
         da_user_id a = u \<and> da_day a = today \<and> da_rescheduled_from a = None
         \<longrightarrow> da_plan_id r \<noteq> da_plan_id a)"
proof (intro conjI ballI impI)
  show "ensure_fresh_actions_for_today c' uu' today u
          (ensure_fresh_actions_for_today c uu today u db)
        = ensure_fresh_actions_for_today c uu today u db"
    by (subst ensure_eq) (simp add: ensure_settled new_rows_def)
  show "daily_actions (ensure_fresh_actions_for_today c uu today u db)
          = daily_actions db @ new_rows c uu today u db"
    by (simp add: ensure_eq)
next
  fix a r
  assume "a \<in> set (daily_actions db)" "r \<in> set (new_rows c uu today u db)"
    "da_user_id a = u \<and> da_day a = today \<and> da_rescheduled_from a = None"
  then show "da_plan_id r \<noteq> da_plan_id a"
    using new_rows_skip by blast
qed

lemmas ex_defs = day9_store_def run_row_def cv_row_def example_uuid4_def planned_store_def
  day10_store_def fresh_row_def example_plan_def second_plan_def fitness_area_def career_area_def
  failing_client_def

lemmas jobs_defs = jobs_def jobs_of_plan_def plans_to_generate_def active_plans_def
      existing_fresh_plan_ids_def first_day_by_plan_def y_by_plan_def Let_def

theorem ensure_fresh_idempotent_witness:
  "fresh_row \<in> set (daily_actions day10_store)
   \<and> da_user_id fresh_row = lit ''u1'' \<and> da_day fresh_row = 10
   \<and> da_rescheduled_from fresh_row = None
   \<and> map da_plan_id (new_rows None example_uuid4 10 (lit ''u1'') day10_store) = [lit ''p2'']
   \<and> da_plan_id (new_rows None example_uuid4 10 (lit ''u1'') day10_store ! 0)
        \<noteq> da_plan_id fresh_row
   \<and> ensure_fresh_actions_for_today None example_uuid4 10 (lit ''u1'')
        (ensure_fresh_actions_for_today None example_uuid4 10 (lit ''u1'') day10_store)
      = ensure_fresh_actions_for_today None example_uuid4 10 (lit ''u1'') day10_store"
proof -
  have j: "jobs 10 (lit ''u1'') day10_store = [(second_plan, career_area, 0, [])]"
    by (simp add: jobs_defs ex_defs lit_Cons lit_Nil)
  have n: "map da_plan_id (new_rows None example_uuid4 10 (lit ''u1'') day10_store) = [lit ''p2'']"
    by (simp add: new_rows_def j new_row_def second_plan_def)
  then have m: "new_rows None example_uuid4 10 (lit ''u1'') day10_store ! 0
      \<in> set (new_rows None example_uuid4 10 (lit ''u1'') day10_store)"
    by (simp add: new_rows_def j)
  have h: "fresh_row \<in> set (daily_actions day10_store)"
    "da_user_id fresh_row = lit ''u1''" "da_day fresh_row = 10"
    "da_rescheduled_from fresh_row = None"
    by (simp_all add: day10_store_def fresh_row_def)
  from ensure_fresh_idempotent [of None example_uuid4 10 "lit ''u1''" None example_uuid4 day10_store]
    h m n
  show ?thesis by blast
qed

section \<open>Properties of the fresh-action engine on unvalidated focus areas\<close>

lemma strip_or_safe:
  "x \<noteq> Some (JOther True) \<Longrightarrow> strip_or x d = Inr (strip (or_str (as_text x) d))"
  by (auto simp: strip_or_def as_text_def or_str_def split: option.splits json.splits)

lemma strip_or_unsafe: "strip_or (Some (JOther True)) d = Inl AttributeError"
  by (simp add: strip_or_def)

lemma fallback_any_safe:
  assumes "fallback_safe area"
  shows "fallback_next_action_any area idx =
           Inr (fallback_next_action
                  \<lparr>fa_name = as_text (aa_name area),
                   fa_weekly_focus = as_text (aa_weekly_focus area),
                   fa_monthly_direction = as_text (aa_monthly_direction area)\<rparr> idx)"
  using assms
  by (simp add: fallback_safe_def fallback_next_action_any_def fallback_next_action_def
      strip_or_safe Let_def)

lemma fallback_any_unsafe:
  assumes "\<not> fallback_safe area"
  shows "fallback_next_action_any area idx = Inl AttributeError"
proof -
  have e: "\<And>x d. (case strip_or x d of Inl e \<Rightarrow> Inl AttributeError | Inr (s::str) \<Rightarrow> Inl AttributeError)
      = (Inl AttributeError :: py_error + str)"
    by (simp split: sum.splits)
  have l: "\<And>x d. strip_or x d = Inl e' \<Longrightarrow> e' = AttributeError" for e'
    by (auto simp: strip_or_def split: option.splits json.splits if_splits)
  from assms consider "aa_name area = Some (JOther True)"
    | "aa_weekly_focus area = Some (JOther True)"
    | "aa_monthly_direction area = Some (JOther True)"
    by (auto simp: fallback_safe_def)
  then show ?thesis
  proof cases
    case 1
    then show ?thesis by (simp add: fallback_next_action_any_def strip_or_unsafe)
  next
    case 2
    then show ?thesis
      using l by (auto simp: fallback_next_action_any_def strip_or_unsafe split: sum.splits)
  next
    case 3
    then show ?thesis
      using l by (auto simp: fallback_next_action_any_def strip_or_unsafe split: sum.splits)
  qed
qed

lemma fallback_any_trimmed:
  "fallback_next_action_any area idx = Inr s \<Longrightarrow> trimmed s"
proof (cases "fallback_safe area")
  case True
  assume "fallback_next_action_any area idx = Inr s"
  with fallback_any_safe [OF True, of idx] show ?thesis
    by (simp add: fallback_trimmed)
next
  case False
  assume "fallback_next_action_any area idx = Inr s"
  with fallback_any_unsafe [OF False, of idx] show ?thesis by simp
qed

lemma generate_any_trimmed:
  assumes "generate_next_action_with_ai_any c i plan area y idx = Inr s"
  shows "trimmed s"
proof (cases c)
  case None
  with assms show ?thesis
    by (simp add: generate_next_action_with_ai_any_def fallback_any_trimmed)
next
  case (Some create)
  show ?thesis
  proof (cases "create i plan area (y_items_any area y) idx")
    case Raises
    with Some assms show ?thesis
      by (simp add: generate_next_action_with_ai_any_def fallback_any_trimmed)
  next
    case (Content co)
    define out where "out = strip (or_str co [])"
    show ?thesis
    proof (cases "out = []")
      case True
      with Some Content assms show ?thesis
        by (simp add: generate_next_action_with_ai_any_def fallback_any_trimmed out_def)
    next
      case False
      then have t: "trimmed out" unfolding out_def by (rule strip_trimmed)
      define l where "l = takeWhile (\<lambda>c. \<not> islinebreak c) out"
      from t have "\<not> islinebreak (hd out)" "out \<noteq> []"
        using islinebreak_isspace by (auto simp: trimmed_def)
      then have "hd out \<in> set l"
        unfolding l_def by (cases out) auto
      moreover from t have "\<not> isspace (hd out)" by (simp add: trimmed_def)
      ultimately have "strip l \<noteq> []" by (auto simp: strip_Nil_iff)
      then have "trimmed (strip l)" by (rule strip_trimmed)
      with Some Content False assms show ?thesis
        by (simp add: generate_next_action_with_ai_any_def out_def [symmetric]
            splitlines_first_def l_def [symmetric])
    qed
  qed
qed

lemma generate_any_fails:
  "generator_fails_any (Some create) i plan area idx y \<Longrightarrow>
     generate_next_action_with_ai_any (Some create) i plan area y idx
       = fallback_next_action_any area idx"
  by (auto simp: generator_fails_any_def generate_next_action_with_ai_any_def Let_def
      split: ai_response.splits)

lemma default_text_trimmed: "trimmed (lit ''Take one small step today.'')"
  by (simp add: trimmed_def lit_Cons lit_Nil isspace_def)

lemma action_text_of_Exc: "action_text_of Exc = lit ''Take one small step today.''"
  by (simp add: action_text_of_def)

text \<open>The text of a pair whose focus area lets its task be built.\<close>

lemma task_any_text:
  assumes "case c of None \<Rightarrow> fallback_safe area | Some create \<Rightarrow> True"
  shows "\<exists>r. task_any c i plan area idx y = Inr r
            \<and> trimmed (action_text_of r)
            \<and> (generator_fails_any c i plan area idx y \<longrightarrow>
                 action_text_of r = (case fallback_next_action_any area idx of
                                       Inl e \<Rightarrow> lit ''Take one small step today.''
                                     | Inr s \<Rightarrow> s))"
proof (cases c)
  case None
  with assms have safe: "fallback_safe area" by simp
  define s where "s = fallback_next_action
                  \<lparr>fa_name = as_text (aa_name area),
                   fa_weekly_focus = as_text (aa_weekly_focus area),
                   fa_monthly_direction = as_text (aa_monthly_direction area)\<rparr> idx"
  have f: "fallback_next_action_any area idx = Inr s"
    unfolding s_def by (rule fallback_any_safe [OF safe])
  have "trimmed s" using f by (rule fallback_any_trimmed)
  then show ?thesis
    using None f by (simp add: task_any_def action_text_of_trimmed)
next
  case (Some create)
  show ?thesis
  proof (cases "generate_next_action_with_ai_any c i plan area y idx")
    case (Inl e)
    then have "task_any c i plan area idx y = Inr Exc"
      using Some by (simp add: task_any_def gen_one_any_def)
    moreover have "generator_fails_any c i plan area idx y \<Longrightarrow>
        fallback_next_action_any area idx = Inl e"
      using generate_any_fails [of create i plan area idx y] Inl Some by simp
    ultimately show ?thesis
      by (auto simp: action_text_of_Exc default_text_trimmed)
  next
    case (Inr s)
    then have "task_any c i plan area idx y = Inr (Result s)"
      using Some by (simp add: task_any_def gen_one_any_def)
    moreover have "trimmed s" using Inr by (rule generate_any_trimmed)
    moreover have "generator_fails_any c i plan area idx y \<Longrightarrow>
        fallback_next_action_any area idx = Inr s"
      using generate_any_fails [of create i plan area idx y] Inr Some by simp
    ultimately show ?thesis
      by (auto simp: action_text_of_trimmed)
  qed
qed

lemma well_formed_item_Object:
  "well_formed_item c (Object a)
     = (storable_name a \<and> (case c of None \<Rightarrow> fallback_safe a | Some create \<Rightarrow> True))"
  by (simp add: well_formed_item_def)

lemma well_formed_plan_Items:
  assumes "well_formed_plan c p"
  obtains its where "pa_focus_areas p = Items its" and "list_all (well_formed_item c) its"
  using assms by (cases "pa_focus_areas p") (simp_all add: well_formed_plan_def)

lemma areas_of_Items:
  "pa_focus_areas plan = Items its \<Longrightarrow> list_all (well_formed_item c) its \<Longrightarrow>
     map Object (areas_of plan) = its"
proof -
  assume p: "pa_focus_areas plan = Items its" and wf: "list_all (well_formed_item c) its"
  have "map Object (concat (map (\<lambda>it. case it of NotObject \<Rightarrow> [] | Object a \<Rightarrow> [a]) xs)) = xs"
    if "list_all (well_formed_item c) xs" for xs
    using that by (induction xs) (auto simp: well_formed_item_def split: item_any.splits)
  with wf show ?thesis by (simp add: areas_of_def p)
qed

text \<open>The inner loop on well-formed items: an entry for every area, no exception.\<close>

lemma area_loop_ok:
  assumes "list_all (well_formed_item c) (map Object as)"
  shows "\<exists>es. area_loop c plan idx y n (map Object as) = Inr es \<and> length es = length as
           \<and> (\<forall>k<length as. fst (es ! k) = pa_id plan
                  \<and> fst (snd (es ! k)) = focus_name_any (as ! k)
                  \<and> task_any c (n + k) plan (as ! k) idx y = Inr (snd (snd (es ! k))))"
  using assms
proof (induction as arbitrary: n)
  case Nil
  then show ?case by simp
next
  case (Cons a as)
  from Cons.prems have "well_formed_item c (Object a)"
    and was: "list_all (well_formed_item c) (map Object as)"
    by simp_all
  then have wa: "case c of None \<Rightarrow> fallback_safe a | Some create \<Rightarrow> True"
    by (simp add: well_formed_item_Object)
  from task_any_text [OF wa, of n plan idx y] obtain r where
    r: "task_any c n plan a idx y = Inr r" by blast
  from Cons.IH [OF was, of "Suc n"] obtain es where
    es: "area_loop c plan idx y (Suc n) (map Object as) = Inr es" "length es = length as"
    and each: "\<forall>k<length as. fst (es ! k) = pa_id plan
                  \<and> fst (snd (es ! k)) = focus_name_any (as ! k)
                  \<and> task_any c (Suc n + k) plan (as ! k) idx y = Inr (snd (snd (es ! k)))"
    by blast
  have loop: "area_loop c plan idx y n (map Object (a # as))
      = Inr ((pa_id plan, focus_name_any a, r) # es)"
    by (simp add: r es)
  have "fst (((pa_id plan, focus_name_any a, r) # es) ! k) = pa_id plan
          \<and> fst (snd (((pa_id plan, focus_name_any a, r) # es) ! k)) = focus_name_any ((a # as) ! k)
          \<and> task_any c (n + k) plan ((a # as) ! k) idx y
                = Inr (snd (snd (((pa_id plan, focus_name_any a, r) # es) ! k)))"
    if "k < length (a # as)" for k
  proof (cases k)
    case 0
    then show ?thesis by (simp add: r)
  next
    case (Suc j)
    with that have "j < length as" by simp
    with each Suc show ?thesis by simp
  qed
  with loop es(2) show ?case by simp
qed

lemma plan_loop_ok:
  assumes "\<forall>plan \<in> set ps. well_formed_plan c plan"
  shows "\<exists>es. plan_loop c today u db n ps = Inr es
           \<and> length es = length (jobs_of_plans today u db ps)
           \<and> (\<forall>k<length es. case jobs_of_plans today u db ps ! k of (plan, area, idx, y) \<Rightarrow>
                  fst (es ! k) = pa_id plan \<and> fst (snd (es ! k)) = focus_name_any area
                  \<and> task_any c (n + k) plan area idx y = Inr (snd (snd (es ! k))))"
  using assms
proof (induction ps arbitrary: n)
  case Nil
  then show ?case by (simp add: jobs_of_plans_def)
next
  case (Cons p ps)
  define idx where "idx = day_index_any today u db p"
  define y where "y = y_by_plan_any today u db (pa_id p)"
  define js where "js = map (\<lambda>area. (p, area, idx, y)) (areas_of p)"
  from Cons.prems have "well_formed_plan c p" by simp
  then obtain its where its: "pa_focus_areas p = Items its"
    and wf: "list_all (well_formed_item c) its"
    by (rule well_formed_plan_Items)
  have obj: "map Object (areas_of p) = its" using its wf by (rule areas_of_Items)
  from wf obj have wf': "list_all (well_formed_item c) (map Object (areas_of p))" by simp
  from area_loop_ok [OF wf', of p idx y n] obj obtain es where
    es: "area_loop c p idx y n its = Inr es" "length es = length (areas_of p)"
    and each: "\<forall>k<length (areas_of p). fst (es ! k) = pa_id p
                  \<and> fst (snd (es ! k)) = focus_name_any (areas_of p ! k)
                  \<and> task_any c (n + k) p (areas_of p ! k) idx y = Inr (snd (snd (es ! k)))"
    by auto
  from Cons.prems have "\<forall>plan \<in> set ps. well_formed_plan c plan" by simp
  from Cons.IH [OF this, of "n + length es"] obtain es' where
    es': "plan_loop c today u db (n + length es) ps = Inr es'"
      "length es' = length (jobs_of_plans today u db ps)"
    and each': "\<forall>k<length es'. case jobs_of_plans today u db ps ! k of (plan, area, idx, y) \<Rightarrow>
                  fst (es' ! k) = pa_id plan \<and> fst (snd (es' ! k)) = focus_name_any area
                  \<and> task_any c (n + length es + k) plan area idx y = Inr (snd (snd (es' ! k)))"
    by blast
  have jobs: "jobs_of_plans today u db (p # ps) = js @ jobs_of_plans today u db ps"
    by (simp add: jobs_of_plans_def js_def idx_def y_def)
  have ljs: "length js = length es" by (simp add: js_def es(2))
  have loop: "plan_loop c today u db n (p # ps) = Inr (es @ es')"
    by (simp add: its es(1) es'(1) idx_def [symmetric] y_def [symmetric])
  have "case (js @ jobs_of_plans today u db ps) ! k of (plan, area, idx, y) \<Rightarrow>
            fst ((es @ es') ! k) = pa_id plan \<and> fst (snd ((es @ es') ! k)) = focus_name_any area
            \<and> task_any c (n + k) plan area idx y = Inr (snd (snd ((es @ es') ! k)))"
    if k: "k < length (es @ es')" for k
  proof (cases "k < length es")
    case True
    then have kp: "k < length (areas_of p)" by (simp add: es(2))
    with each have e: "fst (es ! k) = pa_id p
        \<and> fst (snd (es ! k)) = focus_name_any (areas_of p ! k)
        \<and> task_any c (n + k) p (areas_of p ! k) idx y = Inr (snd (snd (es ! k)))"
      by blast
    have j: "(js @ jobs_of_plans today u db ps) ! k = (p, areas_of p ! k, idx, y)"
      using kp by (simp add: nth_append js_def)
    have "(es @ es') ! k = es ! k" using True by (simp add: nth_append)
    with e show ?thesis by (simp add: j)
  next
    case False
    define j where "j = k - length es"
    from False k have j: "j < length es'" "k = length es + j" by (simp_all add: j_def)
    have "case jobs_of_plans today u db ps ! j of (plan, area, idx, y) \<Rightarrow>
                  fst (es' ! j) = pa_id plan \<and> fst (snd (es' ! j)) = focus_name_any area
                  \<and> task_any c (n + length es + j) plan area idx y = Inr (snd (snd (es' ! j)))"
      by (rule each' [rule_format, OF j(1)])
    moreover have "(js @ jobs_of_plans today u db ps) ! k = jobs_of_plans today u db ps ! j"
      using ljs by (simp add: nth_append j(2))
    moreover have "(es @ es') ! k = es' ! j" by (simp add: nth_append j(2))
    moreover have "n + k = n + length es + j" by (simp add: j(2))
    ultimately show ?thesis by (simp only:)
  qed
  with loop jobs es'(2) ljs show ?case by simp
qed

lemma jobs_of_plans_well_formed:
  assumes "\<forall>plan \<in> set ps. well_formed_plan c plan"
    and "(plan, area, idx, y) \<in> set (jobs_of_plans today u db ps)"
  shows "well_formed_item c (Object area)"
proof -
  from assms(2) obtain p where p: "p \<in> set ps" "area \<in> set (areas_of p)"
    by (auto simp: jobs_of_plans_def)
  with assms(1) have "well_formed_plan c p" by blast
  then obtain its where its: "pa_focus_areas p = Items its"
    and wf: "list_all (well_formed_item c) its"
    by (rule well_formed_plan_Items)
  from areas_of_Items [OF its wf] have "set its = Object ` set (areas_of p)"
    by (metis set_map)
  with p(2) have "Object area \<in> set its" by blast
  with wf show ?thesis by (simp add: list_all_iff)
qed

lemma storable_name_stored:
  "storable_name area \<Longrightarrow> \<exists>s. focus_name_any area = JStr s \<and> stored_name (JStr s) = Some s"
  by (auto simp: storable_name_def stored_name_def varchar_def split: json.splits)

lemma those_map_Some:
  assumes "\<forall>x \<in> set xs. f x \<noteq> None"
  shows "those (map f xs) = Some (map (\<lambda>x. the (f x)) xs)"
  using assms by (induction xs) auto


text \<open>
  C5 (generation never fails, failures are isolated), as amended. Let every plan that
  lacks a fresh row hold a list of focus-area objects whose name is a string of at most
  128 characters and, when no client is configured, whose fields do not make the
  fallback raise. Then the engine returns a store, not an exception: the old rows
  followed by one row per (plan, focus area) pair. The row of pair \<open>i\<close> has the pair's
  plan and focus name and a non-empty action text, and when the generator is not
  configured, raises or returns blank content for that pair, the text is the
  \<open>fallback_next_action\<close> template, or "Take one small step today." when the fallback
  itself raised inside the task.
\<close>

theorem generation_isolated:
  assumes "\<forall>plan \<in> set (plans_to_generate_any today u db). well_formed_plan c plan"
    and "i < length (jobs_any today u db)"
    and "jobs_any today u db ! i = (plan, area, idx, y)"
  shows "case ensure_fresh_actions_for_today_any c uu today u db of
           Inl e \<Rightarrow> False
         | Inr db' \<Rightarrow>
             (let old = sa_daily_actions db; r = sa_daily_actions db' ! (length old + i)
              in take (length old) (sa_daily_actions db') = old
                 \<and> length (sa_daily_actions db') = length old + length (jobs_any today u db)
                 \<and> da_plan_id r = pa_id plan \<and> JStr (da_focus_area r) = focus_name_any area
                 \<and> da_user_id r = u \<and> da_day r = today \<and> da_rescheduled_from r = None
                 \<and> da_completed r = False
                 \<and> da_action r \<noteq> []
                 \<and> (generator_fails_any c i plan area idx y \<longrightarrow>
                      da_action r = (case fallback_next_action_any area idx of
                                       Inl e \<Rightarrow> lit ''Take one small step today.''
                                     | Inr s \<Rightarrow> s)))"
proof -
  define ps where "ps = plans_to_generate_any today u db"
  define js where "js = jobs_of_plans today u db ps"
  define n0 where "n0 = sa_uuid_calls db"
  define f where "f = (\<lambda>(k, entry). new_row_any uu today u n0 k entry)"
  have js: "jobs_any today u db = js" by (simp add: jobs_any_def js_def ps_def)
  from assms(2) have "js \<noteq> []" by (auto simp: js)
  then have ps_ne: "ps \<noteq> []" by (auto simp: js_def jobs_of_plans_def)
  then have act_ne: "active_plans_any u db \<noteq> []"
    by (auto simp: ps_def plans_to_generate_any_def)
  from plan_loop_ok [OF assms(1), of today u db 0] obtain es where
    es: "plan_loop c today u db 0 ps = Inr es" "length es = length js"
    and each: "\<forall>k<length es. case js ! k of (plan, area, idx, y) \<Rightarrow>
                  fst (es ! k) = pa_id plan \<and> fst (snd (es ! k)) = focus_name_any area
                  \<and> task_any c (0 + k) plan area idx y = Inr (snd (snd (es ! k)))"
    unfolding ps_def [symmetric] js_def [symmetric] by blast
  have stored: "\<exists>s. fst (snd (es ! k)) = JStr s \<and> stored_name (JStr s) = Some s"
    if k: "k < length es" for k
  proof -
    obtain p a ix yl where jk: "js ! k = (p, a, ix, yl)" by (metis prod_cases4)
    with k es(2) have "(p, a, ix, yl) \<in> set (jobs_of_plans today u db ps)"
      unfolding js_def [symmetric] by (metis nth_mem)
    with assms(1) have "well_formed_item c (Object a)"
      unfolding ps_def [symmetric] by (rule jobs_of_plans_well_formed)
    then have "storable_name a" by (simp add: well_formed_item_Object)
    moreover have "fst (snd (es ! k)) = focus_name_any a"
      using each [rule_format, OF k] jk by simp
    ultimately show ?thesis using storable_name_stored by simp
  qed
  have some: "\<forall>x \<in> set (zip [0 ..< length es] es). f x \<noteq> None"
  proof
    fix x assume "x \<in> set (zip [0 ..< length es] es)"
    then obtain k where k: "k < length es" "x = (k, es ! k)"
      by (auto simp: set_zip)
    obtain pid nm r where e: "es ! k = (pid, nm, r)" by (metis prod_cases3)
    from stored [OF k(1)] e obtain s where "nm = JStr s" "stored_name nm = Some s" by auto
    then show "f x \<noteq> None" by (simp add: f_def k(2) e new_row_any_def)
  qed
  define rows where "rows = map (\<lambda>x. the (f x)) (zip [0 ..< length es] es)"
  have those: "those (map f (zip [0 ..< length es] es)) = Some rows"
    unfolding rows_def by (rule those_map_Some [OF some])
  have res: "ensure_fresh_actions_for_today_any c uu today u db
      = Inr (db\<lparr>sa_daily_actions := sa_daily_actions db @ rows,
                sa_uuid_calls := sa_uuid_calls db + length es\<rparr>)"
    using act_ne ps_ne those
    by (simp add: ensure_fresh_actions_for_today_any_def ps_def [symmetric] es(1)
        f_def n0_def)
  have len: "length rows = length js" by (simp add: rows_def es(2))
  from assms(2) have i: "i < length es" by (simp add: js es(2))
  have ji: "js ! i = (plan, area, idx, y)" using assms(3) by (simp add: js)
  from each [rule_format, OF i] ji have ei: "fst (es ! i) = pa_id plan"
    "fst (snd (es ! i)) = focus_name_any area"
    "task_any c i plan area idx y = Inr (snd (snd (es ! i)))"
    by simp_all
  from stored [OF i] ei(2) obtain s where s: "focus_name_any area = JStr s"
    "stored_name (JStr s) = Some s" by auto
  have row: "rows ! i =
      \<lparr>da_id = uu (n0 + i), da_user_id = u, da_plan_id = pa_id plan,
       da_focus_area = s, da_action = action_text_of (snd (snd (es ! i))),
       da_day = today, da_completed = False, da_completed_at = None,
       da_rescheduled_from = None\<rparr>"
  proof -
    obtain pid nm r where e: "es ! i = (pid, nm, r)" by (metis prod_cases3)
    with ei s have "pid = pa_id plan" "nm = JStr s" by simp_all
    then show ?thesis
      using i by (simp add: rows_def f_def new_row_any_def e s(2))
  qed
  have "well_formed_item c (Object area)"
  proof -
    from assms(2,3) have "(plan, area, idx, y) \<in> set (jobs_of_plans today u db ps)"
      unfolding js js_def [symmetric] by (metis nth_mem)
    with assms(1) show ?thesis
      unfolding ps_def [symmetric] by (rule jobs_of_plans_well_formed)
  qed
  then have "case c of None \<Rightarrow> fallback_safe area | Some create \<Rightarrow> True"
    by (simp add: well_formed_item_Object)
  from task_any_text [OF this, of i plan idx y] ei(3)
  have tx: "trimmed (action_text_of (snd (snd (es ! i))))"
    and fl: "generator_fails_any c i plan area idx y \<longrightarrow>
        action_text_of (snd (snd (es ! i)))
          = (case fallback_next_action_any area idx of
               Inl e \<Rightarrow> lit ''Take one small step today.'' | Inr s \<Rightarrow> s)"
    by auto
  from tx have ne: "action_text_of (snd (snd (es ! i))) \<noteq> []" by (simp add: trimmed_def)
  have nth: "(sa_daily_actions db @ rows) ! (length (sa_daily_actions db) + i) = rows ! i"
    by simp
  show ?thesis
    using ne fl by (simp add: res Let_def js len nth row s(1))
qed

lemmas any_defs = store_holding_def plan_holding_def fitness_any_def career_number_def
  career_null_name_def failing_client_any_def run_row_def cv_row_def example_uuid4_def

lemmas engine_any_defs = ensure_fresh_actions_for_today_any_def active_plans_any_def
  plans_to_generate_any_def existing_fresh_plan_ids_any_def day_index_any_def
  first_day_by_plan_any_def y_by_plan_any_def task_any_def gen_one_any_def
  generate_next_action_with_ai_any_def fallback_next_action_any_def strip_or_def
  focus_name_any_def new_row_any_def stored_name_def varchar_def action_text_of_def

text \<open>
  The claim as stated fails. With no client configured, a focus area whose name is
  \<open>null\<close> makes the commit fail, and one whose \<open>weekly_focus\<close> is a number makes the
  fallback raise in the loop: either way the exception leaves the engine and the regular
  focus area of the same plan gets no row.
\<close>

theorem generation_counterexample:
  "ensure_fresh_actions_for_today_any None example_uuid4 10 (lit ''u1'')
     (store_holding [Object fitness_any, Object career_null_name]) = Inl StoreError
   \<and> ensure_fresh_actions_for_today_any None example_uuid4 10 (lit ''u1'')
       (store_holding [Object fitness_any, Object career_number]) = Inl AttributeError"
  by (simp add: engine_any_defs any_defs or_str_def strip_def isspace_def lit_Cons lit_Nil
      Let_def)

lemma mixed_jobs:
  "jobs_any 10 (lit ''u1'') (store_holding [Object fitness_any, Object career_number])
   = [(plan_holding [Object fitness_any, Object career_number], fitness_any, 1,
         [run_row True, cv_row]),
      (plan_holding [Object fitness_any, Object career_number], career_number, 1,
         [run_row True, cv_row])]"
  by (simp add: jobs_any_def jobs_of_plans_def areas_of_def plans_to_generate_any_def
      active_plans_any_def existing_fresh_plan_ids_any_def day_index_any_def
      first_day_by_plan_any_def y_by_plan_any_def store_holding_def plan_holding_def
      run_row_def cv_row_def lit_Cons lit_Nil)

theorem generation_isolated_witness:
  "(case ensure_fresh_actions_for_today_any (Some failing_client_any) example_uuid4 10 (lit ''u1'')
           (store_holding [Object fitness_any, Object career_number]) of
      Inl e \<Rightarrow> False
    | Inr db' \<Rightarrow>
        length (sa_daily_actions db') = 4
        \<and> da_focus_area (sa_daily_actions db' ! 2) = lit ''Fitness''
        \<and> da_action (sa_daily_actions db' ! 2)
            = lit ''Make it real: produce a tiny deliverable toward: Run three times''
        \<and> da_focus_area (sa_daily_actions db' ! 3) = lit ''Career''
        \<and> da_action (sa_daily_actions db' ! 3) = lit ''Take one small step today.'')"
proof -
  define db where "db = store_holding [Object fitness_any, Object career_number]"
  define p where "p = plan_holding [Object fitness_any, Object career_number]"
  have wf: "\<forall>plan \<in> set (plans_to_generate_any 10 (lit ''u1'') db).
              well_formed_plan (Some failing_client_any) plan"
    by (simp add: db_def plans_to_generate_any_def active_plans_any_def store_holding_def
        plan_holding_def well_formed_plan_def well_formed_item_def storable_name_def
        focus_name_any_def fitness_any_def career_number_def lit_Cons lit_Nil)
  have j: "jobs_any 10 (lit ''u1'') db
      = [(p, fitness_any, 1, [run_row True, cv_row]), (p, career_number, 1, [run_row True, cv_row])]"
    unfolding db_def p_def by (rule mixed_jobs)
  have i0: "0 < length (jobs_any 10 (lit ''u1'') db)"
    and i1: "1 < length (jobs_any 10 (lit ''u1'') db)"
    and j0: "jobs_any 10 (lit ''u1'') db ! 0 = (p, fitness_any, 1, [run_row True, cv_row])"
    and j1: "jobs_any 10 (lit ''u1'') db ! 1 = (p, career_number, 1, [run_row True, cv_row])"
    by (simp_all add: j)
  have f0: "generator_fails_any (Some failing_client_any) 0 p fitness_any 1 [run_row True, cv_row]"
    and f1: "generator_fails_any (Some failing_client_any) 1 p career_number 1 [run_row True, cv_row]"
    by (simp_all add: generator_fails_any_def failing_client_any_def)
  have b0: "fallback_next_action_any fitness_any 1
      = Inr (lit ''Make it real: produce a tiny deliverable toward: Run three times'')"
    by (simp add: fallback_next_action_any_def strip_or_def fitness_any_def strip_def
        isspace_def lit_Cons lit_Nil Let_def)
  have b1: "fallback_next_action_any career_number 1 = Inl AttributeError"
    by (simp add: fallback_next_action_any_def strip_or_def career_number_def strip_def
        isspace_def lit_Cons lit_Nil)
  have n0: "focus_name_any fitness_any = JStr (lit ''Fitness'')"
    and n1: "focus_name_any career_number = JStr (lit ''Career'')"
    by (simp_all add: focus_name_any_def fitness_any_def career_number_def)
  have old: "length (sa_daily_actions db) = 2"
    by (simp add: db_def store_holding_def)
  from generation_isolated [OF wf i0 j0, of example_uuid4]
    generation_isolated [OF wf i1 j1, of example_uuid4] f0 f1
  show ?thesis
    unfolding db_def [symmetric]
    by (auto simp: Let_def old j b0 b1 n0 n1 split: sum.splits)
qed

subsection \<open>The two engines agree on string-valued focus areas\<close>

text \<open>
  On plans whose focus areas hold strings only, with names that fit the column, the engine
  on unvalidated focus areas raises nothing and stores what the engine of the first
  section stores.
\<close>

lemma as_text_JStr: "as_text (map_option JStr x) = x"
  by (cases x) (simp_all add: as_text_def)

lemma typed_embed_area: "typed_area (embed_area a) = a"
  by (simp add: typed_area_def embed_area_def as_text_JStr)

lemma areas_of_embed: "areas_of (embed_plan p) = map embed_area (p_focus_areas p)"
proof -
  have "concat (map (\<lambda>it. case it of NotObject \<Rightarrow> [] | Object a \<Rightarrow> [a])
          (map (\<lambda>a. Object (embed_area a)) xs)) = map embed_area xs" for xs
    by (induction xs) simp_all
  then show ?thesis by (simp add: areas_of_def embed_plan_def)
qed

lemma typed_embed_plan: "typed_plan (embed_plan p) = p"
  by (simp add: typed_plan_def areas_of_embed comp_def typed_embed_area)
    (simp add: embed_plan_def)

lemma fallback_embed:
  "fallback_next_action_any (embed_area a) idx = Inr (fallback_next_action a idx)"
proof -
  have "fallback_safe (embed_area a)"
    by (auto simp: fallback_safe_def embed_area_def)
  from fallback_any_safe [OF this, of idx] show ?thesis
    using typed_embed_area [of a] by (simp add: typed_area_def)
qed

lemma focus_name_embed: "focus_name_any (embed_area a) = JStr (focus_name a)"
  by (simp add: focus_name_any_def focus_name_def embed_area_def split: option.splits)

lemma y_items_embed: "y_items_any (embed_area a) y = y_items_of a y"
  by (simp add: y_items_any_def y_items_of_def focus_name_embed)

lemma generate_embed:
  "generate_next_action_with_ai_any (Some (lift_client cr)) i (embed_plan p) (embed_area a) y idx
     = Inr (generate_next_action_with_ai (Some cr) i p a y idx)"
  by (simp add: generate_next_action_with_ai_any_def generate_next_action_with_ai_def
      fallback_embed y_items_embed lift_client_def typed_embed_plan typed_embed_area Let_def
      split: ai_response.splits option.splits)

lemma task_embed:
  "task_any (map_option lift_client c) i (embed_plan p) (embed_area a) idx y
     = Inr (run_task c i p a idx y)"
  by (cases c)
    (simp_all add: task_any_def run_task_def gen_one_any_def gen_one_def generate_embed
      fallback_embed)

lemma pa_id_embed_plan: "pa_id (embed_plan p) = p_id p"
  by (simp add: embed_plan_def)

lemma embed_store_fields:
  "sa_daily_actions (embed_store db) = daily_actions db"
  "sa_plans (embed_store db) = map embed_plan (plans db)"
  "sa_uuid_calls (embed_store db) = uuid_calls db"
  by (simp_all add: embed_store_def)

lemma active_plans_embed:
  "active_plans_any u (embed_store db) = map embed_plan (active_plans u db)"
  by (simp add: active_plans_any_def active_plans_def embed_store_fields filter_map comp_def
      embed_plan_def)

lemma pa_id_embed: "map pa_id (map embed_plan ps) = map p_id ps"
  by (simp add: embed_plan_def comp_def)

lemma existing_embed:
  "existing_fresh_plan_ids_any today u (embed_store db) = existing_fresh_plan_ids today u db"
  by (simp add: existing_fresh_plan_ids_any_def existing_fresh_plan_ids_def active_plans_embed
      pa_id_embed_plan embed_store_fields)

lemma plans_to_generate_embed:
  "plans_to_generate_any today u (embed_store db) = map embed_plan (plans_to_generate today u db)"
  by (simp add: plans_to_generate_any_def plans_to_generate_def active_plans_embed existing_embed
      filter_map comp_def embed_plan_def)

lemma y_by_plan_embed:
  "y_by_plan_any today u (embed_store db) pid = y_by_plan today u db pid"
  by (simp add: y_by_plan_any_def y_by_plan_def plans_to_generate_embed pa_id_embed_plan
      embed_store_fields)

lemma day_index_embed:
  "day_index_any today u (embed_store db) (embed_plan p)
     = (case first_day_by_plan today u db (p_id p) of None \<Rightarrow> 0 | Some f \<Rightarrow> today - f)"
proof -
  have "first_day_by_plan_any today u (embed_store db) (p_id p)
      = first_day_by_plan today u db (p_id p)"
    by (simp add: first_day_by_plan_any_def first_day_by_plan_def plans_to_generate_embed
        pa_id_embed_plan embed_store_fields)
  then show ?thesis by (simp add: day_index_any_def pa_id_embed_plan)
qed


lemma well_formed_embed:
  assumes "\<forall>a \<in> set (p_focus_areas p). length (focus_name a) \<le> 128"
  shows "well_formed_plan (map_option lift_client c) (embed_plan p)"
proof -
  have "fallback_safe (embed_area a)" for a
    by (auto simp: fallback_safe_def embed_area_def)
  then have "well_formed_item (map_option lift_client c) (Object (embed_area a))"
    if "length (focus_name a) \<le> 128" for a
    using that
    by (cases c) (simp_all add: well_formed_item_Object storable_name_def focus_name_embed)
  with assms show ?thesis
    by (simp add: well_formed_plan_def embed_plan_def list_all_iff)
qed

lemma jobs_embed:
  "jobs_any today u (embed_store db)
     = map (\<lambda>(p, a, idx, y). (embed_plan p, embed_area a, idx, y)) (jobs today u db)"
proof -
  have "jobs_of_plans today u (embed_store db) (map embed_plan ps)
      = map (\<lambda>(p, a, idx, y). (embed_plan p, embed_area a, idx, y))
          (concat (map (jobs_of_plan today u db) ps))" for ps
    by (induction ps)
      (simp_all add: jobs_of_plans_def jobs_of_plan_def areas_of_embed day_index_embed
        y_by_plan_embed pa_id_embed_plan Let_def comp_def)
  then show ?thesis
    by (simp add: jobs_any_def jobs_def plans_to_generate_embed)
qed

lemma engines_agree:
  assumes "\<forall>p \<in> set (plans db). \<forall>a \<in> set (p_focus_areas p). length (focus_name a) \<le> 128"
  shows "ensure_fresh_actions_for_today_any (map_option lift_client c) uu today u (embed_store db)
           = Inr (embed_store (ensure_fresh_actions_for_today c uu today u db))"
proof (cases "plans_to_generate today u db = []")
  case True
  then show ?thesis
    by (simp add: ensure_fresh_actions_for_today_any_def ensure_fresh_actions_for_today_def
        plans_to_generate_embed active_plans_embed)
next
  case False
  then have act: "active_plans u db \<noteq> []"
    by (auto simp: plans_to_generate_def)
  define c' where "c' = map_option lift_client c"
  define ps where "ps = plans_to_generate today u db"
  define js where "js = jobs today u db"
  have sub: "set ps \<subseteq> set (plans db)"
    by (auto simp: ps_def plans_to_generate_def active_plans_def)
  have wf: "\<forall>plan \<in> set (plans_to_generate_any today u (embed_store db)). well_formed_plan c' plan"
    unfolding plans_to_generate_embed c'_def ps_def [symmetric]
    using assms sub well_formed_embed by auto
  have pany: "plans_to_generate_any today u (embed_store db) = map embed_plan ps"
    by (simp add: plans_to_generate_embed ps_def)
  have jany: "jobs_of_plans today u (embed_store db) (map embed_plan ps)
      = map (\<lambda>(p, a, idx, y). (embed_plan p, embed_area a, idx, y)) js"
    using jobs_embed [of today u db] by (simp add: jobs_any_def js_def pany)
  from wf have wf': "\<forall>plan \<in> set (map embed_plan ps). well_formed_plan c' plan"
    by (simp only: pany)
  from plan_loop_ok [OF wf', of today u "embed_store db" 0] obtain es where
    es: "plan_loop c' today u (embed_store db) 0 (map embed_plan ps) = Inr es"
      "length es = length (jobs_of_plans today u (embed_store db) (map embed_plan ps))"
    and each0: "\<forall>k<length es.
        case jobs_of_plans today u (embed_store db) (map embed_plan ps) ! k of
          (plan, area, idx, y) \<Rightarrow>
            fst (es ! k) = pa_id plan \<and> fst (snd (es ! k)) = focus_name_any area
            \<and> task_any c' (0 + k) plan area idx y = Inr (snd (snd (es ! k)))"
    by blast
  have les: "length es = length js" using es(2) by (simp add: jany)
  note each = each0 [unfolded jany]
  have entry: "es ! k = (p_id p, JStr (focus_name a), run_task c k p a idx y)"
    if k: "k < length js" and jk: "js ! k = (p, a, idx, y)" for k p a idx y
  proof -
    from k have "k < length es" by (simp add: les)
    from each [rule_format, OF this] k jk
    have "fst (es ! k) = p_id p" "fst (snd (es ! k)) = JStr (focus_name a)"
      "task_any c' k (embed_plan p) (embed_area a) idx y = Inr (snd (snd (es ! k)))"
      by (simp_all add: pa_id_embed_plan focus_name_embed)
    then show ?thesis
      by (simp add: c'_def task_embed prod_eq_iff)
  qed
  have short: "length (focus_name a) \<le> 128"
    if k: "k < length js" and jk: "js ! k = (p, a, idx, y)" for k p a idx y
  proof -
    from k jk have "(p, a, idx, y) \<in> set (jobs today u db)"
      unfolding js_def by (metis nth_mem)
    then have "p \<in> set ps" "a \<in> set (p_focus_areas p)"
      unfolding ps_def using jobs_plan by blast+
    with assms sub show ?thesis by blast
  qed
  define f where "f = (\<lambda>(k, entry). new_row_any uu today u (uuid_calls db) k entry)"
  have rows: "map f (zip [0 ..< length es] es) = map Some (new_rows c uu today u db)"
  proof (rule nth_equalityI)
    show "length (map f (zip [0 ..< length es] es)) = length (map Some (new_rows c uu today u db))"
      by (simp add: les js_def new_rows_length)
  next
    fix k assume "k < length (map f (zip [0 ..< length es] es))"
    then have k: "k < length js" by (simp add: les)
    obtain p a idx y where jk: "js ! k = (p, a, idx, y)" by (metis prod_cases4)
    have "f (k, es ! k) = Some (new_row c uu today u (uuid_calls db) k (p, a, idx, y))"
      using short [OF k jk]
      by (simp add: f_def entry [OF k jk] new_row_any_def new_row_def stored_name_def varchar_def)
    then show "map f (zip [0 ..< length es] es) ! k = map Some (new_rows c uu today u db) ! k"
      using k jk by (simp add: les js_def [symmetric] new_rows_def)
  qed
  have "those (map Some xs) = Some xs" for xs :: "DailyAction list"
    by (induction xs) simp_all
  then have "those (map f (zip [0 ..< length es] es)) = Some (new_rows c uu today u db)"
    by (simp only: rows)
  then show ?thesis
    using False act
    by (simp add: ensure_fresh_actions_for_today_any_def ensure_fresh_actions_for_today_def
        plans_to_generate_embed active_plans_embed ps_def [symmetric] es(1) les
        c'_def [symmetric] f_def [symmetric] js_def [symmetric] embed_store_fields)
qed

section \<open>Properties of the progress aggregator\<close>

lemma completed_days_subset:
  "d \<in> set (completed_days u db) \<Longrightarrow>
     \<exists>a \<in> set (daily_actions db). da_user_id a = u \<and> da_completed a \<and> da_day a = d"
proof -
  assume "d \<in> set (completed_days u db)"
  then have "d \<in> set (rev (sort (map da_day
       (filter (\<lambda>a. da_user_id a = u \<and> da_completed a = True) (daily_actions db)))))"
    unfolding completed_days_def by (rule in_set_takeD)
  then show ?thesis by auto
qed

lemma sort_Nil_iff: "(sort xs = []) = (xs = [])"
  by (metis length_0_conv length_sort)

lemma completed_days_Nil:
  "(completed_days u db = []) = (\<forall>a \<in> set (daily_actions db). \<not> (da_user_id a = u \<and> da_completed a))"
  by (simp add: completed_days_def sort_Nil_iff filter_empty_conv)

lemma current_loop_miss:
  "today - int i \<notin> set ds \<Longrightarrow> current_loop today i acc ds = acc"
  by (cases ds) auto

lemma current_zero:
  assumes "today \<notin> set (completed_days u db)"
  shows "s_current_streak (calculate_streak today u db) = 0"
proof -
  have "today - int 0 \<notin> set (rev (sort (remdups (completed_days u db))))"
    using assms by simp
  then have "current_loop today 0 0 (rev (sort (remdups (completed_days u db)))) = 0"
    by (rule current_loop_miss)
  then show ?thesis
    by (simp add: calculate_streak_def Let_def)
qed

lemma current_loop_run:
  assumes "sorted_wrt (>) ds" and "\<forall>d \<in> set ds. d \<le> today - int i"
  shows "(acc + n \<le> current_loop today i acc ds) = (\<forall>j<n. today - int (i + j) \<in> set ds)"
  using assms
proof (induction ds arbitrary: i acc n)
  case Nil
  then show ?case by auto
next
  case (Cons d ds)
  show ?case
  proof (cases "d = today - int i")
    case True
    have below: "\<forall>x \<in> set ds. x \<le> today - int (Suc i)"
      using Cons.prems(1) True by auto
    have srt: "sorted_wrt (>) ds" using Cons.prems(1) by simp
    note IH = Cons.IH [OF srt below]
    show ?thesis
    proof (cases n)
      case 0
      from IH [of "acc + 1" 0] show ?thesis using True 0 by simp
    next
      case (Suc m)
      have "(\<forall>j<Suc m. today - int (i + j) \<in> set (d # ds))
            = (\<forall>j<m. today - int (Suc i + j) \<in> set ds)"
      proof
        assume h: "\<forall>j<Suc m. today - int (i + j) \<in> set (d # ds)"
        show "\<forall>j<m. today - int (Suc i + j) \<in> set ds"
        proof (intro allI impI)
          fix j assume "j < m"
          then have "Suc j < Suc m" by simp
          with h have "today - int (i + Suc j) \<in> set (d # ds)" by blast
          moreover have "today - int (i + Suc j) \<noteq> d" using True by simp
          ultimately show "today - int (Suc i + j) \<in> set ds" by simp
        qed
      next
        assume h: "\<forall>j<m. today - int (Suc i + j) \<in> set ds"
        show "\<forall>j<Suc m. today - int (i + j) \<in> set (d # ds)"
        proof (intro allI impI)
          fix j assume j: "j < Suc m"
          show "today - int (i + j) \<in> set (d # ds)"
          proof (cases j)
            case 0
            then show ?thesis using True by simp
          next
            case (Suc k)
            with j h have "today - int (Suc i + k) \<in> set ds" by simp
            with Suc show ?thesis by simp
          qed
        qed
      qed
      with IH [of "acc + 1" m] True Suc show ?thesis by simp
    qed
  next
    case False
    with Cons.prems(2) have lt: "d < today - int i" by auto
    have "today - int i \<notin> set (d # ds)"
      using lt Cons.prems(1) by auto
    then have "(\<forall>j<n. today - int (i + j) \<in> set (d # ds)) = (n = 0)"
      by (metis add.right_neutral not_gr_zero not_less_zero)
    with False show ?thesis by simp
  qed
qed

lemma unique_days_desc: "sorted_wrt (>) (rev (sort (remdups xs)))"
proof -
  have "sorted_wrt (<) (sort (remdups xs))"
    by (simp add: strict_sorted_iff)
  then show ?thesis by (simp add: sorted_wrt_rev)
qed

lemma current_streak_counts_run:
  assumes "\<forall>d \<in> set (completed_days u db). d \<le> today"
  shows "(n \<le> s_current_streak (calculate_streak today u db))
           = (\<forall>j<n. today - int j \<in> set (completed_days u db))"
proof (cases "completed_days u db = []")
  case True
  then show ?thesis by (auto simp: calculate_streak_def)
next
  case False
  have "\<forall>d \<in> set (rev (sort (remdups (completed_days u db)))). d \<le> today - int 0"
    using assms by simp
  from current_loop_run [OF unique_days_desc this, of 0 n]
  show ?thesis using False by (simp add: calculate_streak_def Let_def)
qed

lemma count_back_le:
  "(n \<le> count_back d days fuel) = (n \<le> fuel \<and> (\<forall>j<n. d - int j \<in> set days))"
proof (induction fuel arbitrary: d n)
  case 0
  then show ?case by auto
next
  case (Suc fuel)
  show ?case
  proof (cases n)
    case 0
    then show ?thesis by simp
  next
    case (Suc m)
    have "(\<forall>j<Suc m. d - int j \<in> set days)
          = (d \<in> set days \<and> (\<forall>j<m. d - 1 - int j \<in> set days))"
    proof -
      have "(\<forall>j<Suc m. d - int j \<in> set days)
            = (d - int 0 \<in> set days \<and> (\<forall>j<m. d - int (Suc j) \<in> set days))"
        by (metis (no_types, lifting) less_Suc_eq_0_disj)
      then show ?thesis by (simp add: algebra_simps)
    qed
    with Suc.IH [of m "d - 1"] Suc show ?thesis by auto
  qed
qed

lemma run_le_length:
  assumes "\<forall>j<n. d - int j \<in> set days"
  shows "n \<le> length days"
proof -
  have "inj_on (\<lambda>j. d - int j) {..<n}" by (auto simp: inj_on_def)
  moreover have "(\<lambda>j. d - int j) ` {..<n} \<subseteq> set days" using assms by auto
  ultimately have "card {..<n} \<le> card (set days)"
    by (meson List.finite_set card_inj_on_le)
  also have "\<dots> \<le> length days" by (rule card_length)
  finally show ?thesis by simp
qed

lemma spec_current_streak_le:
  "(n \<le> spec_current_streak today days) = (\<forall>j<n. today - int j \<in> set days)"
  using run_le_length [of n today days] by (auto simp: spec_current_streak_def count_back_le)

lemma nat_eq_by_le: "(\<And>n. (n \<le> a) = (n \<le> b)) \<Longrightarrow> a = (b::nat)"
  by (metis le_refl order_antisym)

lemma current_is_spec_fetched:
  assumes "\<forall>d \<in> set (completed_days u db). d \<le> today"
  shows "s_current_streak (calculate_streak today u db)
           = spec_current_streak today (completed_days u db)"
  by (rule nat_eq_by_le) (simp add: current_streak_counts_run [OF assms] spec_current_streak_le)

lemma completed_days_all:
  assumes "length (all_completed_days u db) \<le> 2000"
  shows "set (completed_days u db) = set (all_completed_days u db)"
  using assms by (simp add: completed_days_def all_completed_days_def)

lemma spec_current_streak_set:
  "set xs = set ys \<Longrightarrow> spec_current_streak today xs = spec_current_streak today ys"
  by (rule nat_eq_by_le) (simp add: spec_current_streak_le)

text \<open>
  C6 (streak monotonicity), as amended. For every store, user and day, the longest streak
  returned is at least the current streak; the current streak is 0 when the user has no
  completed action on \<open>today\<close> and none on the day before; a user without any completed
  action gets the zero state with the default message. The current streak is the count of
  consecutive days, from \<open>today\<close> backwards without a gap, among the days of the fetched
  rows (the 2000 latest completed ones), provided none of these days lies after \<open>today\<close>;
  so it is the count over all completed days of a user who has at most 2000 completed
  rows, none of them dated after \<open>today\<close>.
\<close>

theorem streak_current_and_longest:
  "s_current_streak (calculate_streak today u db) \<le> s_longest_streak (calculate_streak today u db)
   \<and> ((\<forall>a \<in> set (daily_actions db). da_user_id a = u \<and> da_completed a
          \<longrightarrow> da_day a \<noteq> today \<and> da_day a \<noteq> today - 1)
        \<longrightarrow> s_current_streak (calculate_streak today u db) = 0)
   \<and> ((\<forall>a \<in> set (daily_actions db). \<not> (da_user_id a = u \<and> da_completed a))
        \<longrightarrow> calculate_streak today u db
              = \<lparr>s_current_streak = 0, s_longest_streak = 0, s_total_completed = 0,
                 s_message = lit ''Start your first action to begin your journey!''\<rparr>)
   \<and> ((\<forall>d \<in> set (completed_days u db). d \<le> today)
        \<longrightarrow> s_current_streak (calculate_streak today u db)
              = spec_current_streak today (completed_days u db))
   \<and> (length (all_completed_days u db) \<le> 2000
          \<and> (\<forall>d \<in> set (all_completed_days u db). d \<le> today)
        \<longrightarrow> s_current_streak (calculate_streak today u db)
              = spec_current_streak today (all_completed_days u db))"
proof (intro conjI impI)
  show "s_current_streak (calculate_streak today u db)
          \<le> s_longest_streak (calculate_streak today u db)"
    by (simp add: calculate_streak_def Let_def)
next
  assume "\<forall>a \<in> set (daily_actions db). da_user_id a = u \<and> da_completed a
          \<longrightarrow> da_day a \<noteq> today \<and> da_day a \<noteq> today - 1"
  then have "today \<notin> set (completed_days u db)"
    using completed_days_subset by blast
  then show "s_current_streak (calculate_streak today u db) = 0"
    by (rule current_zero)
next
  assume "\<forall>a \<in> set (daily_actions db). \<not> (da_user_id a = u \<and> da_completed a)"
  then have "completed_days u db = []"
    by (simp only: completed_days_Nil)
  then show "calculate_streak today u db
              = \<lparr>s_current_streak = 0, s_longest_streak = 0, s_total_completed = 0,
                 s_message = lit ''Start your first action to begin your journey!''\<rparr>"
    by (simp add: calculate_streak_def)
next
  assume "\<forall>d \<in> set (completed_days u db). d \<le> today"
  then show "s_current_streak (calculate_streak today u db)
              = spec_current_streak today (completed_days u db)"
    by (rule current_is_spec_fetched)
next
  assume a: "length (all_completed_days u db) \<le> 2000
          \<and> (\<forall>d \<in> set (all_completed_days u db). d \<le> today)"
  then have s: "set (completed_days u db) = set (all_completed_days u db)"
    by (simp add: completed_days_all)
  with a have "\<forall>d \<in> set (completed_days u db). d \<le> today" by simp
  then have "s_current_streak (calculate_streak today u db)
              = spec_current_streak today (completed_days u db)"
    by (rule current_is_spec_fetched)
  with spec_current_streak_set [OF s, of today]
  show "s_current_streak (calculate_streak today u db)
              = spec_current_streak today (all_completed_days u db)"
    by simp
qed

lemma streak_store_days:
  "all_completed_days (lit ''u1'') streak_store = [5, 6, 7, 9, 10, 10]"
  by (simp add: all_completed_days_def streak_store_def week_row_def)

theorem streak_current_and_longest_witness:
  "length (all_completed_days (lit ''u1'') streak_store) \<le> 2000
   \<and> s_current_streak (calculate_streak 10 (lit ''u1'') streak_store) = 2
   \<and> 2 \<le> s_longest_streak (calculate_streak 10 (lit ''u1'') streak_store)
   \<and> s_current_streak (calculate_streak 12 (lit ''u1'') streak_store) = 0
   \<and> calculate_streak 10 (lit ''u2'') streak_store
       = \<lparr>s_current_streak = 0, s_longest_streak = 0, s_total_completed = 0,
          s_message = lit ''Start your first action to begin your journey!''\<rparr>"
proof -
  have run: "spec_current_streak 10 [5, 6, 7, 9, 10, 10] = 2"
    by (simp add: spec_current_streak_def)
  have u2: "\<forall>a \<in> set (daily_actions streak_store). \<not> (da_user_id a = lit ''u2'' \<and> da_completed a)"
    by (simp add: streak_store_def week_row_def lit_Cons lit_Nil)
  have d12: "\<forall>a \<in> set (daily_actions streak_store). da_user_id a = lit ''u1'' \<and> da_completed a
          \<longrightarrow> da_day a \<noteq> 12 \<and> da_day a \<noteq> 12 - 1"
    by (simp add: streak_store_def week_row_def)
  from streak_current_and_longest [of 10 "lit ''u1''" streak_store]
    streak_current_and_longest [of 12 "lit ''u1''" streak_store]
    streak_current_and_longest [of 10 "lit ''u2''" streak_store] u2 d12
  show ?thesis
    by (simp add: streak_store_days run)
qed

text \<open>
  The claim as stated fails. With 2000 completed rows on day 10 and one on day 9 the
  query cuts day 9 off: the streak returned is 1, the run of completed days is 2. With
  completed rows on days 9, 10 and 11 and \<open>today\<close> day 10, the loop stops at the first
  entry: the streak returned is 0, the run from \<open>today\<close> is 2.
\<close>

lemma future_store_days: "all_completed_days (lit ''u1'') future_store = [9, 10, 11]"
  by (simp add: all_completed_days_def future_store_def week_row_def)

lemma busy_store_days: "all_completed_days (lit ''u1'') busy_store = 9 # replicate 2000 10"
proof -
  have "map da_day (filter (\<lambda>a. da_user_id a = lit ''u1'' \<and> da_completed a = True)
          (map (\<lambda>n. week_row n 10 True) [1 ..< 2001])) = replicate 2000 10"
    by (simp add: week_row_def filter_map comp_def map_replicate_const)
  then show ?thesis
    by (simp add: all_completed_days_def busy_store_def) (simp add: week_row_def)
qed

lemma busy_store_fetched: "completed_days (lit ''u1'') busy_store = replicate 2000 10"
proof -
  have "sort (9 # replicate 2000 (10::int)) = 9 # replicate 2000 10"
    by (rule sorted_sort_id) simp
  then show ?thesis
    using busy_store_days
    by (simp add: completed_days_def all_completed_days_def)
qed

theorem streak_count_counterexample:
  "s_current_streak (calculate_streak 10 (lit ''u1'') busy_store) = 1
   \<and> spec_current_streak 10 (all_completed_days (lit ''u1'') busy_store) = 2
   \<and> s_current_streak (calculate_streak 10 (lit ''u1'') future_store) = 0
   \<and> spec_current_streak 10 (all_completed_days (lit ''u1'') future_store) = 2"
proof -
  have "spec_current_streak 10 (replicate 2000 10) = spec_current_streak 10 [10]"
    by (rule spec_current_streak_set) simp
  then have fetched: "spec_current_streak 10 (completed_days (lit ''u1'') busy_store) = 1"
    by (simp add: busy_store_fetched spec_current_streak_def)
  have "\<forall>d \<in> set (completed_days (lit ''u1'') busy_store). d \<le> 10"
    by (simp add: busy_store_fetched)
  then have 1: "s_current_streak (calculate_streak 10 (lit ''u1'') busy_store) = 1"
    using fetched by (simp add: current_is_spec_fetched)
  have "spec_current_streak 10 (9 # replicate 2000 10) = spec_current_streak 10 [9, 10]"
    by (rule spec_current_streak_set) simp
  then have 2: "spec_current_streak 10 (all_completed_days (lit ''u1'') busy_store) = 2"
    by (simp add: busy_store_days spec_current_streak_def)
  have 3: "s_current_streak (calculate_streak 10 (lit ''u1'') future_store) = 0"
    by (simp add: calculate_streak_def completed_days_def future_store_def week_row_def Let_def)
  have 4: "spec_current_streak 10 (all_completed_days (lit ''u1'') future_store) = 2"
    by (simp add: future_store_days spec_current_streak_def)
  from 1 2 3 4 show ?thesis by simp
qed

subsection \<open>Weekly summary\<close>

lemma bit_length_Bit0: "bit_length (numeral (Num.Bit0 n)) = Suc (bit_length (numeral n))"
proof -
  have "numeral (Num.Bit0 n) div (2::nat) = numeral n" by simp
  then show ?thesis by (subst bit_length.simps) simp
qed

lemma bit_length_Bit1: "bit_length (numeral (Num.Bit1 n)) = Suc (bit_length (numeral n))"
proof -
  have "numeral (Num.Bit1 n) div (2::nat) = numeral n" by simp
  then show ?thesis by (subst bit_length.simps) simp
qed

lemma bit_length_Suc0: "bit_length (Suc 0) = Suc 0"
  by (simp add: bit_length.simps)

lemmas bit_length_numeral = bit_length_Bit0 bit_length_Bit1 bit_length_Suc0

lemma floor_numeral_div: "\<lfloor>(numeral a :: rat) / numeral b\<rfloor> = numeral a div numeral b"
  using floor_divide_of_int_eq [of "numeral a" "numeral b", where ?'a = rat] by simp

lemma quotient_of_3_5: "quotient_of (3 / 5) = (3, 5)"
  by code_simp

lemma quotient_of_product:
  "quotient_of (135107988821114875 / 2251799813685248)
     = (135107988821114875, 2251799813685248)"
  by code_simp

lemma quotient_of_60: "quotient_of 60 = (60, 1)"
  by simp

lemma ilog2_3_5: "ilog2 (3 / 5) = - 1"
  by (simp add: ilog2_def quotient_of_3_5 bit_length_numeral pow2_def)

lemma ilog2_product: "ilog2 (135107988821114875 / 2251799813685248) = 5"
  by (simp add: ilog2_def quotient_of_product bit_length_numeral pow2_def)

lemma ilog2_60: "ilog2 60 = 5"
  by (simp add: ilog2_def quotient_of_60 bit_length_numeral pow2_def)

lemma to_double_3_5: "to_double (3 / 5) = 5404319552844595 / 9007199254740992"
  by (simp add: to_double_def ilog2_3_5 pow2_def round_half_even_def Let_def floor_numeral_div)

lemma to_double_product: "to_double (135107988821114875 / 2251799813685248) = 60"
  by (simp add: to_double_def ilog2_product pow2_def round_half_even_def Let_def
      floor_numeral_div)

lemma to_double_60: "to_double 60 = 60"
  by (simp add: to_double_def ilog2_60 pow2_def round_half_even_def Let_def)

lemma percent_6_10: "percent 6 10 = 60"
  by (simp add: percent_def to_double_3_5 to_double_product)

lemma round1_60: "round1 60 = 60"
  by (simp add: round1_def round_half_even_def to_double_60)

lemma weekday_range: "0 \<le> weekday d \<and> weekday d \<le> 6"
  by (simp add: weekday_def)

lemma weekday_week_start: "weekday (d - weekday d) = 0"
  unfolding weekday_def by presburger

lemma week_actions_eq:
  "week_actions today u db
     = filter (\<lambda>a. da_user_id a = u \<and> today - weekday today \<le> da_day a
                  \<and> da_day a \<le> today - weekday today + 6) (daily_actions db)"
  by (simp add: week_actions_def Let_def)

text \<open>
  C7 (weekly summary). The window starts on the Monday on or before \<open>today\<close> and ends
  six days later, so it contains \<open>today\<close>; the totals count exactly the user's rows whose
  day lies in the window; and when the window holds 10 rows of which 6 are completed, the
  completion rate is 60.0 and the message is the one of the tier \<open>60 \<le> rate < 80\<close>.
\<close>

theorem weekly_summary_window:
  "(let S = generate_weekly_summary today u db;
        in_week = (\<lambda>a. da_user_id a = u \<and> w_week_start S \<le> da_day a \<and> da_day a \<le> w_week_end S)
    in weekday (w_week_start S) = 0 \<and> w_week_end S = w_week_start S + 6
       \<and> w_week_start S \<le> today \<and> today \<le> w_week_end S
       \<and> w_total_actions S = length (filter in_week (daily_actions db))
       \<and> w_completed_actions S
           = length (filter (\<lambda>a. in_week a \<and> da_completed a) (daily_actions db))
       \<and> (w_total_actions S = 10 \<and> w_completed_actions S = 6 \<longrightarrow>
            w_completion_rate S = 60
            \<and> w_momentum_message S
                = lit ''Solid week! 6 actions done. Keep stacking wins '' @ [127775]))"
proof -
  have msg: "momentum_message_of 60 6
      = lit ''Solid week! 6 actions done. Keep stacking wins '' @ [127775]"
    by (simp add: momentum_message_of_def str_of_nat.simps lit_Cons lit_Nil)
  have r: "0 \<le> weekday today" "weekday today \<le> 6"
    using weekday_range [of today] by simp_all
  show ?thesis
    using r
    by (simp add: generate_weekly_summary_def Let_def week_actions_eq weekday_week_start
        percent_6_10 round1_60 msg conj_commute cong: conj_cong)
qed

theorem weekly_summary_window_witness:
  "w_total_actions (generate_weekly_summary 738000 (lit ''u1'') week_store) = 10
   \<and> w_completed_actions (generate_weekly_summary 738000 (lit ''u1'') week_store) = 6
   \<and> w_week_start (generate_weekly_summary 738000 (lit ''u1'') week_store) = 737997
   \<and> w_week_end (generate_weekly_summary 738000 (lit ''u1'') week_store) = 738003
   \<and> w_completion_rate (generate_weekly_summary 738000 (lit ''u1'') week_store) = 60
   \<and> w_momentum_message (generate_weekly_summary 738000 (lit ''u1'') week_store)
       = lit ''Solid week! 6 actions done. Keep stacking wins '' @ [127775]"
proof -
  have w: "weekday 738000 = 3" by (simp add: weekday_def)
  have t: "w_total_actions (generate_weekly_summary 738000 (lit ''u1'') week_store) = 10"
    "w_completed_actions (generate_weekly_summary 738000 (lit ''u1'') week_store) = 6"
    "w_week_start (generate_weekly_summary 738000 (lit ''u1'') week_store) = 737997"
    "w_week_end (generate_weekly_summary 738000 (lit ''u1'') week_store) = 738003"
    by (simp_all add: generate_weekly_summary_def Let_def week_actions_eq w week_store_def
        week_row_def lit_Cons lit_Nil)
  from weekly_summary_window [of 738000 "lit ''u1''" week_store] t
  show ?thesis by (simp add: Let_def)
qed

section \<open>Properties of the day resolver\<close>

lemma div_mod_shift:
  "0 \<le> s \<Longrightarrow> s < m \<Longrightarrow> (s + k * m) div m = k \<and> (s + k * m) mod m = (s::int)"
  by (simp add: div_pos_pos_trivial mod_pos_pos_trivial)

lemma wall_clock_fields:
  assumes "0 \<le> hh" "hh < 24" "0 \<le> mm" "mm < 60" "0 \<le> r" "r < 60000000"
    and "l = (d - 719163) * 86400000000 + hh * 3600000000 + mm * 60000000 + r"
  shows "local_date l = d \<and> local_hour l = hh \<and> local_minute l = mm"
proof -
  define q where "q = r + mm * 60000000"
  define s where "s = q + hh * 3600000000"
  have q: "0 \<le> q" "q < 3600000000" using assms(3-6) by (simp_all add: q_def)
  have s: "0 \<le> s" "s < 86400000000" using assms(1,2) q by (simp_all add: s_def)
  have l: "l = s + (d - 719163) * 86400000000"
    using assms(7) by (simp add: s_def q_def)
  have l3: "l = q + ((d - 719163) * 24 + hh) * 3600000000"
    by (simp add: l s_def algebra_simps)
  have "l div 86400000000 = d - 719163" "l mod 86400000000 = s"
    by (simp_all only: l div_mod_shift [OF s])
  moreover have "s div 3600000000 = hh"
    by (simp only: s_def div_mod_shift [OF q])
  moreover have "l mod 3600000000 = q"
    by (simp only: l3 div_mod_shift [OF q])
  moreover have "q div 60000000 = mm"
    by (simp only: q_def div_mod_shift [OF assms(5,6)])
  ultimately show ?thesis
    by (simp add: local_date_def local_hour_def local_minute_def)
qed

text \<open>
  C8 (day-rollover boundary). For every instant, \<open>effective_day\<close> is the local calendar
  date minus one day exactly when the local hour is below the rollover hour, and the date
  itself otherwise; without an argument it resolves the clock reading. With rollover hour
  5, an instant whose local wall clock reads 04:59 on date \<open>d\<close> resolves to \<open>d - 1\<close> and
  one that reads 05:00 resolves to \<open>d\<close>, whatever the seconds \<open>r\<close> are.
\<close>

theorem effective_day_boundary:
  "effective_day tz h clock (Some t)
     = local_date (astimezone tz t) - (if local_hour (astimezone tz t) < h then 1 else 0)
   \<and> effective_day tz h clock None = effective_day tz h clock (Some clock)
   \<and> (0 \<le> r \<and> r < 60000000
        \<and> astimezone tz t = (d - 719163) * 86400000000 + 4 * 3600000000 + 59 * 60000000 + r
        \<longrightarrow> effective_day tz 5 clock (Some t) = d - 1)
   \<and> (0 \<le> r \<and> r < 60000000
        \<and> astimezone tz t = (d - 719163) * 86400000000 + 5 * 3600000000 + 0 * 60000000 + r
        \<longrightarrow> effective_day tz 5 clock (Some t) = d)"
proof (intro conjI impI)
  show "effective_day tz h clock (Some t)
     = local_date (astimezone tz t) - (if local_hour (astimezone tz t) < h then 1 else 0)"
    by (simp add: effective_day_def Let_def)
  show "effective_day tz h clock None = effective_day tz h clock (Some clock)"
    by (simp add: effective_day_def)
next
  assume a: "0 \<le> r \<and> r < 60000000
        \<and> astimezone tz t = (d - 719163) * 86400000000 + 4 * 3600000000 + 59 * 60000000 + r"
  then have "local_date (astimezone tz t) = d \<and> local_hour (astimezone tz t) = 4
      \<and> local_minute (astimezone tz t) = 59"
    by (intro wall_clock_fields [where r = r]) simp_all
  then show "effective_day tz 5 clock (Some t) = d - 1"
    by (simp add: effective_day_def Let_def)
next
  assume a: "0 \<le> r \<and> r < 60000000
        \<and> astimezone tz t = (d - 719163) * 86400000000 + 5 * 3600000000 + 0 * 60000000 + r"
  then have "local_date (astimezone tz t) = d \<and> local_hour (astimezone tz t) = 5
      \<and> local_minute (astimezone tz t) = 0"
    by (intro wall_clock_fields [where r = r]) simp_all
  then show "effective_day tz 5 clock (Some t) = d"
    by (simp add: effective_day_def Let_def)
qed

theorem effective_day_boundary_witness:
  "astimezone six_hours_behind 125940000000
     = (719164 - 719163) * 86400000000 + 4 * 3600000000 + 59 * 60000000 + 0
   \<and> effective_day six_hours_behind 5 0 (Some 125940000000) = 719164 - 1
   \<and> astimezone six_hours_behind 126000000000
     = (719164 - 719163) * 86400000000 + 5 * 3600000000 + 0 * 60000000 + 0
   \<and> effective_day six_hours_behind 5 0 (Some 126000000000) = 719164"
  using effective_day_boundary [of six_hours_behind 5 0 125940000000 0 719164]
    effective_day_boundary [of six_hours_behind 5 0 126000000000 0 719164]
  by (simp add: astimezone_def six_hours_behind_def)

section \<open>Properties of the check-in\<close>

text \<open>
  C10 (check-in). The update keeps the number of rows, the plans and the id counter. A
  row with the requested id that belongs to the caller gets \<open>completed\<close> as submitted, with
  \<open>completed_at\<close> the current time when it is true and \<open>None\<close> when it is false; its
  other fields stay as they were and the route reports success. Every other row is left
  as it was.
\<close>

theorem check_in_updates_only_completion:
  assumes "i < length (daily_actions db)"
  shows "(let a = daily_actions db ! i;
              db' = fst (check_in now request user_id db);
              a' = daily_actions db' ! i
          in length (daily_actions db') = length (daily_actions db)
             \<and> plans db' = plans db \<and> uuid_calls db' = uuid_calls db
             \<and> (da_id a = req_action_id request \<and> da_user_id a = user_id \<longrightarrow>
                  snd (check_in now request user_id db) = Inr True
                  \<and> da_completed a' = req_completed request
                  \<and> (req_completed request \<longrightarrow> da_completed_at a' = Some now)
                  \<and> (\<not> req_completed request \<longrightarrow> da_completed_at a' = None)
                  \<and> da_id a' = da_id a \<and> da_user_id a' = da_user_id a
                  \<and> da_plan_id a' = da_plan_id a \<and> da_focus_area a' = da_focus_area a
                  \<and> da_action a' = da_action a \<and> da_day a' = da_day a
                  \<and> da_rescheduled_from a' = da_rescheduled_from a)
             \<and> (\<not> (da_id a = req_action_id request \<and> da_user_id a = user_id) \<longrightarrow> a' = a))"
proof -
  have "da_id (daily_actions db ! i) = req_action_id request
        \<and> da_user_id (daily_actions db ! i) = user_id
      \<Longrightarrow> filter (\<lambda>a. da_id a = req_action_id request \<and> da_user_id a = user_id)
            (daily_actions db) \<noteq> []"
    using assms by (metis (mono_tags, lifting) filter_empty_conv nth_mem)
  then show ?thesis
    using assms by (auto simp: check_in_def Let_def)
qed

theorem check_in_updates_only_completion_witness:
  "da_completed (daily_actions (fst (check_in 2000 undo_run (lit ''u1'') day9_store)) ! 0) = False
   \<and> da_completed_at (daily_actions (fst (check_in 2000 undo_run (lit ''u1'') day9_store)) ! 0) = None
   \<and> da_action (daily_actions (fst (check_in 2000 undo_run (lit ''u1'') day9_store)) ! 0)
       = lit ''Run 5k''
   \<and> daily_actions (fst (check_in 2000 undo_run (lit ''u1'') day9_store)) ! 1 = cv_row
   \<and> snd (check_in 2000 undo_run (lit ''u1'') day9_store) = Inr True"
proof -
  have l: "0 < length (daily_actions day9_store)" "1 < length (daily_actions day9_store)"
    by (simp_all add: day9_store_def)
  from check_in_updates_only_completion [OF l(1), of 2000 undo_run "lit ''u1''"]
    check_in_updates_only_completion [OF l(2), of 2000 undo_run "lit ''u1''"]
  show ?thesis
    by (simp add: Let_def day9_store_def run_row_def cv_row_def undo_run_def lit_Cons lit_Nil)
qed

end
